theory Spec2Isabelle
  imports Main "HOL-Library.Sublist" "HOL-Library.Char_ord" "HOL-Library.List_Lexorder"
begin

section \<open>Python values and exceptions\<close>

text \<open>
  A parsed JSON document as \<^verbatim>\<open>json.load\<close> returns it. A \<^verbatim>\<open>dict\<close> keeps the order in
  which its keys were inserted, and \<^verbatim>\<open>json.dump\<close> writes them in that order, so an object
  is an association list. A Python \<^verbatim>\<open>float\<close> is a mantissa and a binary exponent.
  Strings are lists of code points below 256, compared code point by code point, which
  is Python's order on \<^verbatim>\<open>str\<close>.
\<close>

datatype json =
    JNull
  | JBool bool
  | JInt int
  | JFloat int int
  | JStr string
  | JArr "json list"
  | JObj "(string \<times> json) list"

text \<open>What a Python function hands back to its caller.\<close>

datatype pyval = PyNone | PyInt int | PyTuple "pyval list"

datatype error =
    FileNotFoundError
  | NotADirectoryError
  | IsADirectoryError
  | FileExistsError
  | AttributeError
  | TypeError
  | JSONDecodeError
  | UnicodeError
  | PermissionError

text \<open>
  The two functions of the \<^verbatim>\<open>json\<close> module the programs call. They are library code, so
  they are parameters: \<open>loads\<close> parses the bytes of a file opened with
  \<^verbatim>\<open>encoding='utf-8'\<close>, \<open>dumps\<close> renders a value with \<^verbatim>\<open>indent=2\<close>, its first argument
  being \<^verbatim>\<open>ensure_ascii\<close>. \<^verbatim>\<open>json.dump\<close> writes to its file piece by piece, so where
  \<open>dumps\<close> raises, \<open>partial_dump\<close> is the text that has reached the file by then.
\<close>

record json_codec =
  loads :: "string \<Rightarrow> error + json"
  dumps :: "bool \<Rightarrow> json \<Rightarrow> error + string"
  partial_dump :: "bool \<Rightarrow> json \<Rightarrow> string"

section \<open>Strings and paths\<close>

text \<open>\<^verbatim>\<open>str.lower\<close> on code points below 256.\<close>

definition lower_char :: "char \<Rightarrow> char" where
  "lower_char c =
     (let n = (of_char c :: nat)
      in if (65 \<le> n \<and> n \<le> 90) \<or> (192 \<le> n \<and> n \<le> 222 \<and> n \<noteq> 215)
         then char_of (n + 32) else c)"

definition lower :: "string \<Rightarrow> string" where
  "lower s = map lower_char s"

text \<open>\<^verbatim>\<open>s.startswith(p)\<close> and \<^verbatim>\<open>s.endswith(p)\<close>, the second also with a tuple of suffixes.\<close>

definition startswith :: "string \<Rightarrow> string \<Rightarrow> bool" where
  "startswith s p = prefix p s"

definition endswith :: "string \<Rightarrow> string \<Rightarrow> bool" where
  "endswith s p = suffix p s"

definition endswith_any :: "string \<Rightarrow> string list \<Rightarrow> bool" where
  "endswith_any s ps = list_ex (endswith s) ps"

text \<open>\<^verbatim>\<open>p.rfind(c)\<close> for a single character: the last index of \<open>c\<close>, or \<open>-1\<close>.\<close>

primrec rfind_aux :: "char \<Rightarrow> string \<Rightarrow> int \<Rightarrow> int \<Rightarrow> int" where
  "rfind_aux c [] i found = found"
| "rfind_aux c (x # xs) i found = rfind_aux c xs (i + 1) (if x = c then i else found)"

definition rfind :: "string \<Rightarrow> char \<Rightarrow> int" where
  "rfind p c = rfind_aux c p 0 (- 1)"

text \<open>
  \<^verbatim>\<open>os.path.splitext\<close> is \<^verbatim>\<open>genericpath._splitext(p, sep, altsep, '.')\<close>: the extension
  starts at the last dot after the last separator, unless only dots precede it. The
  separators depend on the platform (\<^verbatim>\<open>'/'\<close> and none on POSIX, the backslash and
  \<^verbatim>\<open>'/'\<close> on Windows), so they are parameters.
\<close>

function splitext_loop :: "string \<Rightarrow> int \<Rightarrow> int \<Rightarrow> string \<times> string" where
  "splitext_loop p filenameIndex dotIndex =
     (if filenameIndex < dotIndex
      then (if take 1 (drop (nat filenameIndex) p) \<noteq> ''.''
            then (take (nat dotIndex) p, drop (nat dotIndex) p)
            else splitext_loop p (filenameIndex + 1) dotIndex)
      else (p, ''''))"
  by pat_completeness auto
termination
  by (relation "measure (\<lambda>(p, f, d). nat (d - f))") auto

definition splitext :: "char \<Rightarrow> char option \<Rightarrow> string \<Rightarrow> string \<times> string" where
  "splitext sep altsep p =
     (let sepIndex = (case altsep of
                        None \<Rightarrow> rfind p sep
                      | Some a \<Rightarrow> max (rfind p sep) (rfind p a));
          dotIndex = rfind p (CHR ''.'')
      in if dotIndex > sepIndex then splitext_loop p (sepIndex + 1) dotIndex
         else (p, ''''))"

section \<open>The file system\<close>

text \<open>
  The tree the programs read: a file with its bytes and its permission bits (the low
  bits of \<^verbatim>\<open>st_mode\<close>), or a directory with its entries in the order \<^verbatim>\<open>os.listdir\<close> gives
  them. A path is the list of its components below the root, so
  \<^verbatim>\<open>os.path.join(d, name)\<close> is \<open>d @ [name]\<close>.
\<close>

datatype node = File string nat | Dir "(string \<times> node) list"

type_synonym path = "string list"

fun lookup :: "node \<Rightarrow> path \<Rightarrow> node option" where
  "lookup nd [] = Some nd"
| "lookup (File b m) (n # p) = None"
| "lookup (Dir es) (n # p) = (case map_of es n of None \<Rightarrow> None | Some nd \<Rightarrow> lookup nd p)"

definition listdir :: "node \<Rightarrow> path \<Rightarrow> error + string list" where
  "listdir fs p =
     (case lookup fs p of
        None \<Rightarrow> Inl FileNotFoundError
      | Some (File b m) \<Rightarrow> Inl NotADirectoryError
      | Some (Dir es) \<Rightarrow> Inr (map fst es))"

definition isdir :: "node \<Rightarrow> path \<Rightarrow> bool" where
  "isdir fs p = (case lookup fs p of Some (Dir es) \<Rightarrow> True | _ \<Rightarrow> False)"

definition read_file :: "node \<Rightarrow> path \<Rightarrow> error + string" where
  "read_file fs p =
     (case lookup fs p of
        None \<Rightarrow> Inl FileNotFoundError
      | Some (Dir es) \<Rightarrow> Inl IsADirectoryError
      | Some (File b m) \<Rightarrow> Inr b)"

text \<open>\<^verbatim>\<open>json.load\<close> on a file opened for reading.\<close>

definition load_json :: "json_codec \<Rightarrow> node \<Rightarrow> path \<Rightarrow> error + json" where
  "load_json codec fs p =
     (case read_file fs p of Inl e \<Rightarrow> Inl e | Inr text \<Rightarrow> loads codec text)"

section \<open>Dictionaries\<close>

definition dict_get :: "(string \<times> json) list \<Rightarrow> string \<Rightarrow> json \<Rightarrow> json" where
  "dict_get d k dflt = (case map_of d k of None \<Rightarrow> dflt | Some v \<Rightarrow> v)"

definition dict_contains :: "(string \<times> json) list \<Rightarrow> string \<Rightarrow> bool" where
  "dict_contains d k = (map_of d k \<noteq> None)"

definition dict_del :: "(string \<times> json) list \<Rightarrow> string \<Rightarrow> (string \<times> json) list" where
  "dict_del d k = filter (\<lambda>kv. fst kv \<noteq> k) d"

text \<open>\<^verbatim>\<open>sub in s\<close> on two strings.\<close>

definition str_contains :: "string \<Rightarrow> string \<Rightarrow> bool" where
  "str_contains s sub = sublist sub s"

section \<open>process\_data.py\<close>

text \<open>
  The paths \<^verbatim>\<open>__init__\<close> builds, those of the inputs below \<^verbatim>\<open>source_path\<close> and those of
  the outputs below \<^verbatim>\<open>output_path\<close>.
\<close>

definition image_dir :: path where "image_dir = [''raw_images'']"
definition results_dir :: path where "results_dir = [''raw_results'']"
definition keywords_dir :: path where "keywords_dir = [''keyword_identification'', ''gpt-4o'']"

definition output_data_dir :: path where "output_data_dir = [''data'']"
definition output_images_dir :: path where "output_images_dir = output_data_dir @ [''images'']"
definition output_results_dir :: path where "output_results_dir = output_data_dir @ [''results'']"
definition output_keywords_dir :: path where "output_keywords_dir = output_data_dir @ [''keywords'']"

definition get_models :: "node \<Rightarrow> error + string list" where
  "get_models src =
     (case listdir src results_dir of
        Inl e \<Rightarrow> Inl e
      | Inr ds \<Rightarrow> Inr (sort (filter (\<lambda>d. isdir src (results_dir @ [d])) ds)))"

definition get_image_files :: "node \<Rightarrow> error + string list" where
  "get_image_files src =
     (case listdir src image_dir of
        Inl e \<Rightarrow> Inl e
      | Inr fs \<Rightarrow> Inr (sort (filter (\<lambda>f. endswith_any (lower f) [''.jpg'', ''.jpeg'', ''.png'']) fs)))"

definition get_latest_json :: "node \<Rightarrow> string \<Rightarrow> path \<Rightarrow> error + string option" where
  "get_latest_json src base_name model_dir =
     (case listdir src model_dir of
        Inl e \<Rightarrow> Inl e
      | Inr fs \<Rightarrow>
          (let json_files = filter (\<lambda>f. startswith f base_name) fs
           in Inr (if json_files \<noteq> [] then Some (last (sort json_files)) else None)))"

text \<open>
  \<^verbatim>\<open>process_json_content\<close> returns its result paired with the state in which it leaves
  the object it was given: the \<^verbatim>\<open>del\<close> of the second branch works on that object itself.
  The value \<^verbatim>\<open>json.load\<close> passes in need not be a \<^verbatim>\<open>dict\<close>: \<^verbatim>\<open>.get\<close> exists on a \<^verbatim>\<open>dict\<close>
  only, \<^verbatim>\<open>in\<close> is defined on a \<^verbatim>\<open>dict\<close>, a \<^verbatim>\<open>list\<close> and a \<^verbatim>\<open>str\<close>, and \<^verbatim>\<open>del x["metadata"]\<close>
  on a \<^verbatim>\<open>dict\<close> only.
\<close>

fun process_json_content :: "json \<Rightarrow> bool \<Rightarrow> error + (json \<times> json)" where
  "process_json_content (JObj d) True =
     Inr (JObj [(''ocr_results'', dict_get d ''ocr_results'' (JObj [])),
                (''identified_keywords'', dict_get d ''identified_keywords'' (JObj [])),
                (''statistics'', dict_get d ''statistics'' (JObj []))],
          JObj d)"
| "process_json_content v True = Inl AttributeError"
| "process_json_content (JObj d) False =
     (if dict_contains d ''metadata''
      then Inr (JObj (dict_del d ''metadata''), JObj (dict_del d ''metadata''))
      else Inr (JObj d, JObj d))"
| "process_json_content (JArr xs) False =
     (if JStr ''metadata'' \<in> set xs then Inl TypeError else Inr (JArr xs, JArr xs))"
| "process_json_content (JStr s) False =
     (if str_contains s ''metadata'' then Inl TypeError else Inr (JStr s, JStr s))"
| "process_json_content v False = Inl TypeError"

text \<open>
  The tree the publisher writes, below \<^verbatim>\<open>output_path\<close>: the directories that exist, the
  bytes of every file and the permission bits of every file. A run only ever adds
  directories and writes files, and asks of a path only whether it is a directory or a
  file and whether the file may be written. The run reads the three input
  directories and writes the output data directory and what lies below it; the two are
  kept apart here, as they are under the paths of \<^verbatim>\<open>main\<close>, where the inputs
  \<^verbatim>\<open>raw_images\<close>, \<^verbatim>\<open>raw_results\<close> and \<^verbatim>\<open>keyword_identification\<close> lie beside the outputs
  \<^verbatim>\<open>images\<close>, \<^verbatim>\<open>results\<close> and \<^verbatim>\<open>keywords\<close>: a run does not write what it reads.
  A function that raises hands back the exception together with the tree as the
  exception leaves it. The permission bits of the directories, and of the files a run
  only reads, are left out: of these a second run asks no more than the first.
\<close>

record out_tree =
  dirs :: "path set"
  files :: "path \<rightharpoonup> string"
  modes :: "path \<Rightarrow> nat"

definition wf_out :: "out_tree \<Rightarrow> bool" where
  "wf_out t = (dirs t \<inter> dom (files t) = {})"

text \<open>
  What the operating system gives the process: the separators of its paths, whether the
  process runs as the superuser, and the permission bits of a file it creates
  (\<^verbatim>\<open>0o666\<close> less the \<^verbatim>\<open>umask\<close>). The files of the output tree belong to the user who runs
  the publisher, who may therefore open one for writing when its owner-write bit
  \<^verbatim>\<open>0o200\<close> (128, \<^verbatim>\<open>stat.S_IWRITE\<close>) is set; the superuser always may.
\<close>

record platform =
  sep :: char
  altsep :: "char option"
  superuser :: bool
  create_mode :: nat

definition os_path_splitext :: "platform \<Rightarrow> string \<Rightarrow> string \<times> string" where
  "os_path_splitext pf p = splitext (sep pf) (altsep pf) p"

definition may_write :: "platform \<Rightarrow> nat \<Rightarrow> bool" where
  "may_write pf m = (superuser pf \<or> odd (m div 128))"

text \<open>
  \<^verbatim>\<open>os.makedirs(p, exist_ok=True)\<close> creates \<open>p\<close> and every directory above it; it fails
  where a file is in the way, and then has created nothing.
\<close>

definition makedirs :: "path \<Rightarrow> out_tree \<Rightarrow> (error \<times> out_tree) + out_tree" where
  "makedirs p t =
     (if list_ex (\<lambda>q. files t q \<noteq> None) (butlast (prefixes p))
      then Inl (NotADirectoryError, t)
      else if files t p \<noteq> None then Inl (FileExistsError, t)
      else Inr (t\<lparr>dirs := dirs t \<union> set (prefixes p)\<rparr>))"

text \<open>
  \<^verbatim>\<open>open(p, 'w')\<close>: the directory of \<open>p\<close> must exist; a new file is created empty with
  the bits of the platform, an existing one is emptied and keeps its bits, if it may be
  written.
\<close>

definition open_w :: "platform \<Rightarrow> path \<Rightarrow> out_tree \<Rightarrow> (error \<times> out_tree) + out_tree" where
  "open_w pf p t =
     (if p \<in> dirs t then Inl (IsADirectoryError, t)
      else if files t (butlast p) \<noteq> None then Inl (NotADirectoryError, t)
      else if butlast p \<notin> dirs t then Inl (FileNotFoundError, t)
      else if files t p = None
      then Inr (t\<lparr>files := (files t)(p \<mapsto> []), modes := (modes t)(p := create_mode pf)\<rparr>)
      else if may_write pf (modes t p) then Inr (t\<lparr>files := (files t)(p \<mapsto> [])\<rparr>)
      else Inl (PermissionError, t))"

text \<open>
  \<^verbatim>\<open>with open(p, 'w') as f: json.dump(v, f, indent=2, ensure_ascii=...)\<close>: the file is
  opened, and so emptied, before the value is rendered.
\<close>

definition dump_json ::
    "json_codec \<Rightarrow> platform \<Rightarrow> bool \<Rightarrow> json \<Rightarrow> path \<Rightarrow> out_tree \<Rightarrow> (error \<times> out_tree) + out_tree" where
  "dump_json codec pf ensure_ascii v p t =
     (case open_w pf p t of
        Inl x \<Rightarrow> Inl x
      | Inr t' \<Rightarrow>
          (case dumps codec ensure_ascii v of
             Inl e \<Rightarrow> Inl (e, t'\<lparr>files := (files t')(p \<mapsto> partial_dump codec ensure_ascii v)\<rparr>)
           | Inr text \<Rightarrow> Inr (t'\<lparr>files := (files t')(p \<mapsto> text)\<rparr>)))"

text \<open>
  \<^verbatim>\<open>shutil.copy2(src, dst)\<close>: where \<open>dst\<close> is a directory the copy goes into it, under the
  last component of the source path. \<^verbatim>\<open>copyfile\<close> opens the source, then the destination
  for writing, and copies the bytes; \<^verbatim>\<open>copystat\<close> then gives the destination the
  permission bits of the source.
\<close>

definition copy2 ::
    "platform \<Rightarrow> node \<Rightarrow> path \<Rightarrow> path \<Rightarrow> out_tree \<Rightarrow> (error \<times> out_tree) + out_tree" where
  "copy2 pf src p dst t =
     (let dst' = (if dst \<in> dirs t then dst @ [last p] else dst)
      in case lookup src p of
           None \<Rightarrow> Inl (FileNotFoundError, t)
         | Some (Dir es) \<Rightarrow> Inl (IsADirectoryError, t)
         | Some (File bytes m) \<Rightarrow>
             (case open_w pf dst' t of
                Inl x \<Rightarrow> Inl x
              | Inr t' \<Rightarrow>
                  Inr (t'\<lparr>files := (files t')(dst' \<mapsto> bytes), modes := (modes t')(dst' := m)\<rparr>)))"

text \<open>The loop of \<^verbatim>\<open>create_directory_structure\<close>.\<close>

fun makedirs_each :: "path list \<Rightarrow> out_tree \<Rightarrow> (error \<times> out_tree) + out_tree" where
  "makedirs_each [] t = Inr t"
| "makedirs_each (dir_path # rest) t =
     (case makedirs dir_path t of Inl x \<Rightarrow> Inl x | Inr t' \<Rightarrow> makedirs_each rest t')"

definition create_directory_structure :: "out_tree \<Rightarrow> (error \<times> out_tree) + out_tree" where
  "create_directory_structure t =
     makedirs_each [output_data_dir, output_images_dir, output_results_dir, output_keywords_dir] t"

text \<open>
  \<^verbatim>\<open>process_files\<close>, from the inside out: the body of \<^verbatim>\<open>for model in models\<close>, that loop,
  the keyword step, the body of \<^verbatim>\<open>for image in images\<close> (its variable is \<open>img\<close>
  here), that loop, and the function.
  \<^verbatim>\<open>if json_file:\<close> is false for \<^verbatim>\<open>None\<close> and for the empty string.
\<close>

definition process_files_model ::
    "json_codec \<Rightarrow> platform \<Rightarrow> node \<Rightarrow> string \<Rightarrow> string \<Rightarrow> out_tree \<Rightarrow> (error \<times> out_tree) + out_tree" where
  "process_files_model codec pf src base_name model t =
     (let model_dir = results_dir @ [model]
      in case get_latest_json src base_name model_dir of
           Inl e \<Rightarrow> Inl (e, t)
         | Inr None \<Rightarrow> Inr t
         | Inr (Some json_file) \<Rightarrow>
             if json_file = [] then Inr t
             else
               (let output_model_dir = output_results_dir @ [model]
                in case makedirs output_model_dir t of
                     Inl x \<Rightarrow> Inl x
                   | Inr t1 \<Rightarrow>
                       (case load_json codec src (model_dir @ [json_file]) of
                          Inl e \<Rightarrow> Inl (e, t1)
                        | Inr model_data \<Rightarrow>
                            (case process_json_content model_data False of
                               Inl e \<Rightarrow> Inl (e, t1)
                             | Inr processed \<Rightarrow>
                                 dump_json codec pf False (fst processed)
                                   (output_model_dir @ [base_name @ ''.json'']) t1))))"

fun process_files_models ::
    "json_codec \<Rightarrow> platform \<Rightarrow> node \<Rightarrow> string \<Rightarrow> string list \<Rightarrow> out_tree \<Rightarrow> (error \<times> out_tree) + out_tree" where
  "process_files_models codec pf src base_name [] t = Inr t"
| "process_files_models codec pf src base_name (model # models) t =
     (case process_files_model codec pf src base_name model t of
        Inl x \<Rightarrow> Inl x
      | Inr t' \<Rightarrow> process_files_models codec pf src base_name models t')"

definition process_files_keyword ::
    "json_codec \<Rightarrow> platform \<Rightarrow> node \<Rightarrow> string \<Rightarrow> out_tree \<Rightarrow> (error \<times> out_tree) + out_tree" where
  "process_files_keyword codec pf src base_name t =
     (case get_latest_json src base_name keywords_dir of
        Inl e \<Rightarrow> Inl (e, t)
      | Inr None \<Rightarrow> Inr t
      | Inr (Some keyword_json) \<Rightarrow>
          if keyword_json = [] then Inr t
          else
            (case load_json codec src (keywords_dir @ [keyword_json]) of
               Inl e \<Rightarrow> Inl (e, t)
             | Inr keyword_data \<Rightarrow>
                 (case process_json_content keyword_data True of
                    Inl e \<Rightarrow> Inl (e, t)
                  | Inr processed \<Rightarrow>
                      dump_json codec pf False (fst processed)
                        (output_keywords_dir @ [base_name @ ''.json'']) t)))"

definition process_files_image ::
    "json_codec \<Rightarrow> platform \<Rightarrow> node \<Rightarrow> string list \<Rightarrow> string \<Rightarrow> out_tree \<Rightarrow> (error \<times> out_tree) + out_tree" where
  "process_files_image codec pf src models img t =
     (case copy2 pf src (image_dir @ [img]) (output_images_dir @ [img]) t of
        Inl x \<Rightarrow> Inl x
      | Inr t1 \<Rightarrow>
          (let base_name = fst (os_path_splitext pf img)
           in case process_files_keyword codec pf src base_name t1 of
                Inl x \<Rightarrow> Inl x
              | Inr t2 \<Rightarrow> process_files_models codec pf src base_name models t2))"

fun process_files_images ::
    "json_codec \<Rightarrow> platform \<Rightarrow> node \<Rightarrow> string list \<Rightarrow> string list \<Rightarrow> out_tree \<Rightarrow> (error \<times> out_tree) + out_tree" where
  "process_files_images codec pf src models [] t = Inr t"
| "process_files_images codec pf src models (img # images) t =
     (case process_files_image codec pf src models img t of
        Inl x \<Rightarrow> Inl x
      | Inr t' \<Rightarrow> process_files_images codec pf src models images t')"

text \<open>
  \<^verbatim>\<open>process_files\<close> has no \<^verbatim>\<open>return\<close> statement, so a call that completes hands back
  \<^verbatim>\<open>None\<close>, here paired with the output tree it leaves.
\<close>

definition process_files ::
    "json_codec \<Rightarrow> platform \<Rightarrow> node \<Rightarrow> out_tree \<Rightarrow> (error \<times> out_tree) + (pyval \<times> out_tree)" where
  "process_files codec pf src t =
     (case get_models src of
        Inl e \<Rightarrow> Inl (e, t)
      | Inr models \<Rightarrow>
          (case get_image_files src of
             Inl e \<Rightarrow> Inl (e, t)
           | Inr images \<Rightarrow>
               (case dump_json codec pf True (JArr (map JStr models))
                       (output_data_dir @ [''models.json'']) t of
                  Inl x \<Rightarrow> Inl x
                | Inr t1 \<Rightarrow>
                    (case dump_json codec pf True (JArr (map JStr images))
                            (output_data_dir @ [''files.json'']) t1 of
                       Inl x \<Rightarrow> Inl x
                     | Inr t2 \<Rightarrow>
                         (case process_files_images codec pf src models images t2 of
                            Inl x \<Rightarrow> Inl x
                          | Inr t3 \<Rightarrow> Inr (PyNone, t3))))))"

text \<open>
  \<^verbatim>\<open>process\<close>: the \<^verbatim>\<open>except\<close> clause logs and raises the exception again, and the function
  ends without a \<^verbatim>\<open>return\<close>.
\<close>

definition process ::
    "json_codec \<Rightarrow> platform \<Rightarrow> node \<Rightarrow> out_tree \<Rightarrow> (error \<times> out_tree) + (pyval \<times> out_tree)" where
  "process codec pf src t =
     (case create_directory_structure t of
        Inl x \<Rightarrow> Inl x
      | Inr t1 \<Rightarrow>
          (case process_files codec pf src t1 of
             Inl x \<Rightarrow> Inl x
           | Inr r \<Rightarrow> Inr (PyNone, snd r)))"

text \<open>
  What a run writes to a path of the output tree is decided by the path and the source
  tree: the two index files hold the two lists, an image copy holds the bytes and the
  permission bits of the image of that name, a keyword file and a result file hold the
  reshaped latest artifact of their base name.
\<close>

definition output_value ::
    "json_codec \<Rightarrow> node \<Rightarrow> string list \<Rightarrow> string list \<Rightarrow> path \<Rightarrow> string \<Rightarrow> nat \<Rightarrow> bool" where
  "output_value codec src models images p c m =
     ((p = output_data_dir @ [''models.json'']
         \<and> dumps codec True (JArr (map JStr models)) = Inr c)
      \<or> (p = output_data_dir @ [''files.json'']
         \<and> dumps codec True (JArr (map JStr images)) = Inr c)
      \<or> (\<exists>img. (p = output_images_dir @ [img] \<or> p = output_images_dir @ [img, img])
         \<and> lookup src (image_dir @ [img]) = Some (File c m))
      \<or> (\<exists>b kf kd pr. p = output_keywords_dir @ [b @ ''.json'']
         \<and> get_latest_json src b keywords_dir = Inr (Some kf)
         \<and> load_json codec src (keywords_dir @ [kf]) = Inr kd
         \<and> process_json_content kd True = Inr pr
         \<and> dumps codec False (fst pr) = Inr c)
      \<or> (\<exists>model b jf md pr. p = output_results_dir @ [model, b @ ''.json'']
         \<and> get_latest_json src b (results_dir @ [model]) = Inr (Some jf)
         \<and> load_json codec src (results_dir @ [model, jf]) = Inr md
         \<and> process_json_content md False = Inr pr
         \<and> dumps codec False (fst pr) = Inr c))"

text \<open>
  A file of a tree is settled, for a rule \<open>C\<close> on paths, bytes and permission bits,
  when it exists and its bytes and bits are what the rule says.
\<close>

definition settled :: "(path \<Rightarrow> string \<Rightarrow> nat \<Rightarrow> bool) \<Rightarrow> out_tree \<Rightarrow> path \<Rightarrow> bool" where
  "settled C T p = (case files T p of None \<Rightarrow> False | Some c \<Rightarrow> C p c (modes T p))"

text \<open>
  Every file of a tree may be opened for writing; and every image the run selects
  carries permission bits with which its copy may be opened for writing.
\<close>

definition all_writable :: "platform \<Rightarrow> out_tree \<Rightarrow> bool" where
  "all_writable pf T = (\<forall>p. files T p \<noteq> None \<longrightarrow> may_write pf (modes T p))"

definition images_writable :: "platform \<Rightarrow> node \<Rightarrow> bool" where
  "images_writable pf src =
     (case get_image_files src of
        Inl e \<Rightarrow> True
      | Inr images \<Rightarrow>
          list_all (\<lambda>img. case lookup src (image_dir @ [img]) of
                             Some (File bytes m) \<Rightarrow> may_write pf m
                           | _ \<Rightarrow> True) images)"

text \<open>
  A step of a run can be replayed when, after it has succeeded once from a tree in which
  no path is both a directory and a file, it has only written files that are settled,
  and from every later tree in which these files are still settled it either succeeds
  and changes nothing, or raises \<^verbatim>\<open>PermissionError\<close> at a file that may not be written and
  changes nothing.
\<close>

definition replays ::
    "platform \<Rightarrow> (path \<Rightarrow> string \<Rightarrow> nat \<Rightarrow> bool) \<Rightarrow>
     (out_tree \<Rightarrow> (error \<times> out_tree) + out_tree) \<Rightarrow> bool" where
  "replays pf C f =
     (\<forall>s s'. wf_out s \<and> f s = Inr s' \<longrightarrow>
        wf_out s' \<and> dirs s \<subseteq> dirs s' \<and> dom (files s) \<subseteq> dom (files s') \<and>
        (\<exists>W. (\<forall>p. p \<notin> W \<longrightarrow> files s' p = files s p \<and> modes s' p = modes s p) \<and>
             (\<forall>p \<in> W. settled C s' p) \<and>
             (\<forall>T. wf_out T \<and> dirs s' \<subseteq> dirs T \<and> dom (files s') \<subseteq> dom (files T) \<and>
                  (\<forall>p \<in> W. settled C T p) \<longrightarrow>
                  f T = Inr T \<or> (f T = Inl (PermissionError, T) \<and> \<not> all_writable pf T))))"

section \<open>app.py\<close>

text \<open>
  \<^verbatim>\<open>IMAGE_FOLDER\<close> and \<^verbatim>\<open>RESULTS_FOLDER\<close> lie side by side in one data directory, the root
  of the tree the service reads.
\<close>

definition image_folder :: path where "image_folder = [''raw_images'']"
definition results_folder :: path where "results_folder = [''results'']"

record response =
  status :: nat
  body :: json

definition get_available_models :: "node \<Rightarrow> error + string list" where
  "get_available_models fs =
     (case listdir fs results_folder of
        Inl e \<Rightarrow> Inl e
      | Inr ds \<Rightarrow> Inr (filter (\<lambda>d. isdir fs (results_folder @ [d])) ds))"

definition app_get_latest_json :: "platform \<Rightarrow> node \<Rightarrow> string \<Rightarrow> string \<Rightarrow> error + string option" where
  "app_get_latest_json pf fs image_filename model =
     (let base_name = fst (os_path_splitext pf image_filename);
          json_folder = results_folder @ [model]
      in case listdir fs json_folder of
           Inl e \<Rightarrow> Inl e
         | Inr fs' \<Rightarrow>
             (let json_files = filter (\<lambda>f. startswith f base_name) fs'
              in if json_files = [] then Inr None else Inr (Some (last (sort json_files)))))"

definition get_files :: "node \<Rightarrow> error + response" where
  "get_files fs =
     (case listdir fs image_folder of
        Inl e \<Rightarrow> Inl e
      | Inr fs' \<Rightarrow>
          (let image_files = filter (\<lambda>f. endswith f ''.jpg'') fs'
           in Inr \<lparr>status = 200, body = JArr (map JStr (sort image_files))\<rparr>))"

definition get_json :: "json_codec \<Rightarrow> platform \<Rightarrow> node \<Rightarrow> string \<Rightarrow> string \<Rightarrow> error + response" where
  "get_json codec pf fs model filename =
     (case get_available_models fs of
        Inl e \<Rightarrow> Inl e
      | Inr available \<Rightarrow>
          if model \<notin> set available
          then Inr \<lparr>status = 404, body = JObj [(''error'', JStr ''Invalid model'')]\<rparr>
          else
            (case app_get_latest_json pf fs filename model of
               Inl e \<Rightarrow> Inl e
             | Inr None \<Rightarrow> Inr \<lparr>status = 404, body = JObj [(''error'', JStr ''JSON not found'')]\<rparr>
             | Inr (Some json_filename) \<Rightarrow>
                 if json_filename = []
                 then Inr \<lparr>status = 404, body = JObj [(''error'', JStr ''JSON not found'')]\<rparr>
                 else
                   (case load_json codec fs (results_folder @ [model, json_filename]) of
                      Inl e \<Rightarrow> Inl e
                    | Inr doc \<Rightarrow> Inr \<lparr>status = 200, body = doc\<rparr>)))"

section \<open>Concrete inputs\<close>

text \<open>
  The separators of \<^verbatim>\<open>posixpath\<close> and of \<^verbatim>\<open>ntpath\<close>, for a user who is not the
  superuser. A new file gets the bits \<^verbatim>\<open>0o644\<close> (420) under the usual \<^verbatim>\<open>umask\<close> of POSIX
  and \<^verbatim>\<open>0o666\<close> (438) on Windows.
\<close>

definition posix :: platform where
  "posix = \<lparr>sep = CHR ''/'', altsep = None, superuser = False, create_mode = 420\<rparr>"

definition nt :: platform where
  "nt = \<lparr>sep = CHR 0x5C, altsep = Some (CHR ''/''), superuser = False, create_mode = 438\<rparr>"

text \<open>
  A small stand-in for the \<^verbatim>\<open>json\<close> module: three texts parse, every other text is
  malformed; an object is rendered as its keys and an array as its strings, and
  rendering never raises.
\<close>

definition demo_loads :: "string \<Rightarrow> error + json" where
  "demo_loads text =
     (if text = ''K'' then Inr (JObj [(''statistics'', JObj [(''n'', JInt 5)])])
      else if text = ''R1'' then Inr (JObj [(''metadata'', JStr ''old''), (''score'', JInt 1)])
      else if text = ''R2'' then Inr (JObj [(''metadata'', JStr ''new''), (''score'', JInt 2)])
      else Inl JSONDecodeError)"

definition demo_dumps :: "bool \<Rightarrow> json \<Rightarrow> error + string" where
  "demo_dumps ensure_ascii v =
     (case v of
        JObj d \<Rightarrow> Inr (concat (map (\<lambda>kv. fst kv @ '';'') d))
      | JArr xs \<Rightarrow> Inr (concat (map (\<lambda>x. case x of JStr s \<Rightarrow> s @ '','' | _ \<Rightarrow> ''?'') xs))
      | _ \<Rightarrow> Inr ''?'')"

definition demo_codec :: json_codec where
  "demo_codec = \<lparr>loads = demo_loads, dumps = demo_dumps, partial_dump = (\<lambda>a v. [])\<rparr>"

text \<open>
  A source tree: two images and a text file, a model with two results for the first
  image, a model with none, and one keyword file, all with the bits \<^verbatim>\<open>0o644\<close>.
\<close>

definition demo_src :: node where
  "demo_src = Dir
     [(''raw_images'',
         Dir [(''b.png'', File ''PNG'' 420), (''a.jpg'', File ''JPG'' 420), (''notes.txt'', File ''N'' 420)]),
      (''raw_results'',
         Dir [(''m2'', Dir []),
              (''m1'', Dir [(''a_20240101.json'', File ''R1'' 420), (''a_20240102.json'', File ''R2'' 420)]),
              (''README'', File ''r'' 420)]),
      (''keyword_identification'',
         Dir [(''gpt-4o'', Dir [(''a_2024.json'', File ''K'' 420)])])]"

text \<open>The same source tree with the first image read-only (\<^verbatim>\<open>0o444\<close>, 292).\<close>

definition demo_src_readonly :: node where
  "demo_src_readonly = Dir
     [(''raw_images'',
         Dir [(''b.png'', File ''PNG'' 420), (''a.jpg'', File ''JPG'' 292),
              (''notes.txt'', File ''N'' 420)]),
      (''raw_results'',
         Dir [(''m2'', Dir []),
              (''m1'', Dir [(''a_20240101.json'', File ''R1'' 420),
                            (''a_20240102.json'', File ''R2'' 420)]),
              (''README'', File ''r'' 420)]),
      (''keyword_identification'',
         Dir [(''gpt-4o'', Dir [(''a_2024.json'', File ''K'' 420)])])]"

text \<open>The output tree before the first run, and with its directories created.\<close>

definition demo_out :: out_tree where
  "demo_out = \<lparr>dirs = {}, files = Map.empty, modes = (\<lambda>p. 0)\<rparr>"

definition demo_out_dirs :: out_tree where
  "demo_out_dirs =
     \<lparr>dirs = {[], [''data''], [''data'', ''images''], [''data'', ''results''],
              [''data'', ''keywords'']},
      files = Map.empty,
      modes = (\<lambda>p. 0)\<rparr>"

text \<open>The tree the query service reads.\<close>

definition demo_app_fs :: node where
  "demo_app_fs = Dir
     [(''raw_images'',
         Dir [(''b.png'', File ''PNG'' 420), (''a.jpg'', File ''JPG'' 420), (''C.JPG'', File ''JPG2'' 420)]),
      (''results'',
         Dir [(''m2'', Dir []),
              (''m1'', Dir [(''a_20240101.json'', File ''R1'' 420), (''a_20240102.json'', File ''R2'' 420),
                            (''c_1.json'', File ''broken'' 420)])])]"

section \<open>Resolving the latest artifact\<close>

lemma sorted_last_Max:
  fixes ys :: "'a::linorder list"
  assumes "sorted ys" and "ys \<noteq> []"
  shows "last ys = Max (set ys)"
proof -
  have "y \<le> last ys" if "y \<in> set ys" for y
  proof -
    from that obtain i where i: "i < length ys" "ys ! i = y"
      by (metis in_set_conv_nth)
    have "ys ! i \<le> ys ! (length ys - 1)"
      using assms i by (intro sorted_nth_mono) auto
    then show ?thesis
      using i assms by (simp add: last_conv_nth)
  qed
  moreover have "last ys \<in> set ys"
    using assms by simp
  ultimately show ?thesis
    by (metis List.finite_set Max_eqI)
qed

lemma last_sort_Max:
  fixes xs :: "'a::linorder list"
  shows "xs \<noteq> [] \<Longrightarrow> last (sort xs) = Max (set xs)"
  using sorted_last_Max[of "sort xs"] by (metis set_sort sorted_sort set_empty)

text \<open>
  Claim C1. For every directory listing \<open>D\<close> and every base name \<open>B\<close>, both
  \<^verbatim>\<open>get_latest_json\<close> functions (the pipeline's, and the query service's on a file name
  whose base name is \<open>B\<close>) return the greatest name, in the lexicographic order of the
  code points, among the entries of \<open>D\<close> that start with \<open>B\<close>, and return \<^verbatim>\<open>None\<close>
  exactly when no entry of \<open>D\<close> starts with \<open>B\<close>.
\<close>

theorem resolve_latest_max:
  "(listdir src model_dir = Inr D \<longrightarrow>
      get_latest_json src B model_dir =
        Inr (if {f \<in> set D. prefix B f} = {} then None
             else Some (Max {f \<in> set D. prefix B f})))
   \<and> (listdir fs (results_folder @ [model]) = Inr D \<and> fst (os_path_splitext pf F) = B \<longrightarrow>
      app_get_latest_json pf fs F model =
        Inr (if {f \<in> set D. prefix B f} = {} then None
             else Some (Max {f \<in> set D. prefix B f})))"
proof -
  have *: "(filter (\<lambda>f. startswith f B) D = []) = ({f \<in> set D. prefix B f} = {})"
    by (auto simp: startswith_def filter_empty_conv)
  have **: "filter (\<lambda>f. startswith f B) D \<noteq> [] \<Longrightarrow>
      last (sort (filter (\<lambda>f. startswith f B) D)) = Max {f \<in> set D. prefix B f}"
    using last_sort_Max[of "filter (\<lambda>f. startswith f B) D"] by (simp add: startswith_def)
  show ?thesis
    using * ** by (auto simp: get_latest_json_def app_get_latest_json_def Let_def)
qed

theorem resolve_latest_max_witness:
  "listdir demo_src (results_dir @ [''m1'']) = Inr [''a_20240101.json'', ''a_20240102.json'']
   \<and> get_latest_json demo_src ''a'' (results_dir @ [''m1'']) = Inr (Some ''a_20240102.json'')
   \<and> listdir demo_app_fs (results_folder @ [''m1'']) = Inr [''a_20240101.json'', ''a_20240102.json'', ''c_1.json'']
   \<and> fst (os_path_splitext nt ''a.jpg'') = ''a''
   \<and> app_get_latest_json nt demo_app_fs ''a.jpg'' ''m1'' = Inr (Some ''a_20240102.json'')
   \<and> Max {f \<in> set [''a_20240101.json'', ''a_20240102.json'', ''c_1.json'']. prefix ''a'' f} = ''a_20240102.json''"
proof -
  have h1: "listdir demo_src (results_dir @ [''m1'']) = Inr [''a_20240101.json'', ''a_20240102.json'']"
    by code_simp
  have h2: "listdir demo_app_fs (results_folder @ [''m1'']) = Inr [''a_20240101.json'', ''a_20240102.json'', ''c_1.json'']"
    by code_simp
  have h3: "fst (os_path_splitext nt ''a.jpg'') = ''a''" by code_simp
  have r1: "get_latest_json demo_src ''a'' (results_dir @ [''m1'']) = Inr (Some ''a_20240102.json'')"
    by code_simp
  have r2: "app_get_latest_json nt demo_app_fs ''a.jpg'' ''m1'' = Inr (Some ''a_20240102.json'')"
    by code_simp
  from resolve_latest_max[of demo_src "results_dir @ [''m1'']" _ "''a''" demo_app_fs "''m1''" nt "''a.jpg''"]
  have "app_get_latest_json nt demo_app_fs ''a.jpg'' ''m1'' =
        Inr (if {f \<in> set [''a_20240101.json'', ''a_20240102.json'', ''c_1.json'']. prefix ''a'' f} = {} then None
             else Some (Max {f \<in> set [''a_20240101.json'', ''a_20240102.json'', ''c_1.json'']. prefix ''a'' f}))"
    using h2 h3 by blast
  with r2 have "Max {f \<in> set [''a_20240101.json'', ''a_20240102.json'', ''c_1.json'']. prefix ''a'' f} = ''a_20240102.json''"
    by (simp split: if_splits)
  with h1 h2 h3 r1 r2 show ?thesis by blast
qed

text \<open>
  Claim C8. The query service and the pipeline resolve alike: on the same directory
  listing (or the same failure to list), \<^verbatim>\<open>app.py\<close>'s \<^verbatim>\<open>get_latest_json\<close> on a file name
  with base name \<open>B\<close> and \<^verbatim>\<open>process_data.py\<close>'s \<^verbatim>\<open>get_latest_json\<close> on \<open>B\<close> give the same
  result.
\<close>

theorem query_and_pipeline_resolve_alike:
  "listdir fs (results_folder @ [model]) = listdir src model_dir \<Longrightarrow>
   fst (os_path_splitext pf F) = B \<Longrightarrow>
   app_get_latest_json pf fs F model = get_latest_json src B model_dir"
  by (auto simp: app_get_latest_json_def get_latest_json_def Let_def split: sum.splits)

theorem query_and_pipeline_resolve_alike_witness:
  "listdir demo_app_fs (results_folder @ [''m1'']) = listdir demo_app_fs [''results'', ''m1'']
   \<and> fst (os_path_splitext posix ''a.jpg'') = ''a''
   \<and> app_get_latest_json posix demo_app_fs ''a.jpg'' ''m1'' = Inr (Some ''a_20240102.json'')
   \<and> get_latest_json demo_app_fs ''a'' [''results'', ''m1''] = Inr (Some ''a_20240102.json'')"
proof -
  have h1: "listdir demo_app_fs (results_folder @ [''m1'']) = listdir demo_app_fs [''results'', ''m1'']"
    by (simp add: results_folder_def)
  have h2: "fst (os_path_splitext posix ''a.jpg'') = ''a''" by code_simp
  have r: "get_latest_json demo_app_fs ''a'' [''results'', ''m1''] = Inr (Some ''a_20240102.json'')"
    by code_simp
  from query_and_pipeline_resolve_alike[OF h1 h2] h1 h2 r show ?thesis by simp
qed

section \<open>Reshaping a document\<close>

lemma map_of_dict_del:
  "map_of (dict_del d k) k' = (if k' = k then None else map_of d k')"
  unfolding dict_del_def by (induction d) auto

lemma dict_del_neq: "dict_contains d k \<Longrightarrow> dict_del d k \<noteq> d"
proof
  assume c: "dict_contains d k" and e: "dict_del d k = d"
  have "map_of (dict_del d k) k = None" by (simp add: map_of_dict_del)
  with c e show False by (simp add: dict_contains_def)
qed

text \<open>
  Claim C3. On every JSON object, \<^verbatim>\<open>process_json_content\<close> with \<^verbatim>\<open>is_keyword=True\<close> does
  not raise and returns an object whose keys are exactly \<^verbatim>\<open>ocr_results\<close>,
  \<^verbatim>\<open>identified_keywords\<close> and \<^verbatim>\<open>statistics\<close>, each with the input's value for it, or with
  the empty object where the input has no such key.
\<close>

theorem reshape_annotation_keys:
  "\<exists>r. process_json_content (JObj d) True = Inr (JObj r, JObj d)
     \<and> fst ` set r = {''ocr_results'', ''identified_keywords'', ''statistics''}
     \<and> map_of r ''ocr_results'' =
         Some (case map_of d ''ocr_results'' of Some v \<Rightarrow> v | None \<Rightarrow> JObj [])
     \<and> map_of r ''identified_keywords'' =
         Some (case map_of d ''identified_keywords'' of Some v \<Rightarrow> v | None \<Rightarrow> JObj [])
     \<and> map_of r ''statistics'' =
         Some (case map_of d ''statistics'' of Some v \<Rightarrow> v | None \<Rightarrow> JObj [])"
  by (simp add: dict_get_def split: option.split)

text \<open>
  Claim C4. On every JSON object, \<^verbatim>\<open>process_json_content\<close> with \<^verbatim>\<open>is_keyword=False\<close> does
  not raise, whether or not \<^verbatim>\<open>metadata\<close> is present, and returns an object without the
  key \<^verbatim>\<open>metadata\<close> in which every other key has the value it has in the input.
\<close>

theorem reshape_model_result:
  "\<exists>r a. process_json_content (JObj d) False = Inr (JObj r, a)
     \<and> map_of r ''metadata'' = None
     \<and> (\<forall>k. k \<noteq> ''metadata'' \<longrightarrow> map_of r k = map_of d k)"
  by (simp add: dict_contains_def map_of_dict_del)

theorem reshape_model_result_witness:
  "\<exists>r a. process_json_content (JObj [(''metadata'', JStr ''new''), (''score'', JInt 2)]) False
            = Inr (JObj r, a)
     \<and> map_of r ''metadata'' = None
     \<and> ''score'' \<noteq> ''metadata''
     \<and> map_of r ''score'' = Some (JInt 2)"
proof -
  from reshape_model_result[of "[(''metadata'', JStr ''new''), (''score'', JInt 2)]"]
  obtain r a where
    run: "process_json_content (JObj [(''metadata'', JStr ''new''), (''score'', JInt 2)]) False
            = Inr (JObj r, a)"
    and gone: "map_of r ''metadata'' = None"
    and kept: "\<forall>k. k \<noteq> ''metadata'' \<longrightarrow>
                 map_of r k = map_of [(''metadata'', JStr ''new''), (''score'', JInt 2)] k"
    by blast
  have ne: "''score'' \<noteq> ''metadata''" by simp
  with kept have "map_of r ''score'' = Some (JInt 2)" by simp
  with run gone ne show ?thesis by blast
qed

text \<open>
  The object passed to \<^verbatim>\<open>process_json_content\<close> is not always left as it was: with
  \<^verbatim>\<open>is_keyword=False\<close> and a \<^verbatim>\<open>metadata\<close> key, the key is gone from it after the call.
\<close>

theorem reshape_mutates_argument_counterexample:
  "snd (projr (process_json_content (JObj [(''metadata'', JStr ''new''), (''score'', JInt 2)]) False))
     \<noteq> JObj [(''metadata'', JStr ''new''), (''score'', JInt 2)]"
  by (simp add: dict_contains_def dict_del_def)

text \<open>
  Claim C5, amended. \<^verbatim>\<open>process_json_content\<close> does no input or output. With
  \<^verbatim>\<open>is_keyword=True\<close> it leaves the object it is given unchanged. With
  \<^verbatim>\<open>is_keyword=False\<close> it leaves the object unchanged when the object has no \<^verbatim>\<open>metadata\<close>
  key; when it has one, the call deletes that key from the object itself, which is
  therefore changed, and returns that same object.
\<close>

theorem reshape_argument_effect:
  "process_json_content (JObj d) True =
      Inr (fst (projr (process_json_content (JObj d) True)), JObj d)
   \<and> (\<not> dict_contains d ''metadata'' \<longrightarrow>
        process_json_content (JObj d) False = Inr (JObj d, JObj d))
   \<and> (dict_contains d ''metadata'' \<longrightarrow>
        process_json_content (JObj d) False =
          Inr (JObj (dict_del d ''metadata''), JObj (dict_del d ''metadata''))
        \<and> JObj (dict_del d ''metadata'') \<noteq> JObj d)"
  by (simp add: dict_del_neq)

theorem reshape_argument_effect_witness:
  "\<not> dict_contains [(''score'', JInt 2)] ''metadata''
   \<and> process_json_content (JObj [(''score'', JInt 2)]) False
       = Inr (JObj [(''score'', JInt 2)], JObj [(''score'', JInt 2)])
   \<and> dict_contains [(''metadata'', JStr ''new''), (''score'', JInt 2)] ''metadata''
   \<and> process_json_content (JObj [(''metadata'', JStr ''new''), (''score'', JInt 2)]) False
       = Inr (JObj [(''score'', JInt 2)], JObj [(''score'', JInt 2)])"
proof -
  have a: "\<not> dict_contains [(''score'', JInt 2)] ''metadata''"
    by (simp add: dict_contains_def)
  have b: "dict_contains [(''metadata'', JStr ''new''), (''score'', JInt 2)] ''metadata''"
    by (simp add: dict_contains_def)
  have c: "dict_del [(''metadata'', JStr ''new''), (''score'', JInt 2)] ''metadata'' = [(''score'', JInt 2)]"
    by (simp add: dict_del_def)
  from a b c reshape_argument_effect[of "[(''score'', JInt 2)]"]
    reshape_argument_effect[of "[(''metadata'', JStr ''new''), (''score'', JInt 2)]"]
  show ?thesis by metis
qed

section \<open>The query service\<close>

text \<open>
  Claim C10. \<^verbatim>\<open>GET /api/json/<model>/<filename>\<close> ignores the extension of the file name:
  two file names with the same base name resolve the same artifact and get the same
  response from the same tree.
\<close>

theorem get_json_ignores_extension:
  assumes "fst (os_path_splitext pf F1) = fst (os_path_splitext pf F2)"
  shows "app_get_latest_json pf fs F1 model = app_get_latest_json pf fs F2 model
   \<and> get_json codec pf fs model F1 = get_json codec pf fs model F2"
proof -
  have "app_get_latest_json pf fs F1 model = app_get_latest_json pf fs F2 model"
    using assms by (simp add: app_get_latest_json_def)
  then show ?thesis unfolding get_json_def by (simp split: sum.splits)
qed

theorem get_json_ignores_extension_witness:
  "fst (os_path_splitext nt ''a.jpg'') = fst (os_path_splitext nt ''a.png'')
   \<and> get_json demo_codec nt demo_app_fs ''m1'' ''a.png''
       = Inr \<lparr>status = 200, body = JObj [(''metadata'', JStr ''new''), (''score'', JInt 2)]\<rparr>"
proof -
  have h: "fst (os_path_splitext nt ''a.jpg'') = fst (os_path_splitext nt ''a.png'')"
    by code_simp
  have r: "get_json demo_codec nt demo_app_fs ''m1'' ''a.jpg''
       = Inr \<lparr>status = 200, body = JObj [(''metadata'', JStr ''new''), (''score'', JInt 2)]\<rparr>"
    by code_simp
  from get_json_ignores_extension[OF h, where codec = demo_codec and fs = demo_app_fs and model = "''m1''"] h r
  show ?thesis by simp
qed

lemma isdir_listdir: "isdir fs p \<Longrightarrow> \<exists>D. listdir fs p = Inr D"
  by (auto simp: isdir_def listdir_def split: option.splits node.splits)

lemma available_model_listdir:
  "get_available_models fs = Inr ms \<Longrightarrow> M \<in> set ms \<Longrightarrow>
   \<exists>D. listdir fs (results_folder @ [M]) = Inr D"
  by (auto simp: get_available_models_def isdir_listdir split: sum.splits)

lemma app_get_latest_json_max:
  "listdir fs (results_folder @ [model]) = Inr D \<Longrightarrow>
   app_get_latest_json pf fs F model =
     Inr (if {f \<in> set D. prefix (fst (os_path_splitext pf F)) f} = {} then None
          else Some (Max {f \<in> set D. prefix (fst (os_path_splitext pf F)) f}))"
proof -
  assume l: "listdir fs (results_folder @ [model]) = Inr D"
  let ?B = "fst (os_path_splitext pf F)"
  have *: "(filter (\<lambda>f. startswith f ?B) D = []) = ({f \<in> set D. prefix ?B f} = {})"
    by (auto simp: startswith_def filter_empty_conv)
  have **: "filter (\<lambda>f. startswith f ?B) D \<noteq> [] \<Longrightarrow>
      last (sort (filter (\<lambda>f. startswith f ?B) D)) = Max {f \<in> set D. prefix ?B f}"
    using last_sort_Max[of "filter (\<lambda>f. startswith f ?B) D"] by (simp add: startswith_def)
  show ?thesis
    using l * ** by (auto simp: app_get_latest_json_def Let_def)
qed

text \<open>
  Claim C7. For every model name \<open>M\<close> and file name \<open>F\<close> of a request
  \<^verbatim>\<open>GET /api/json/<M>/<F>\<close>, once the model directories have been listed: if \<open>M\<close> is not
  among them the response is a 404 with body \<^verbatim>\<open>{"error": "Invalid model"}\<close>; if \<open>M\<close> is
  among them, its directory can be listed, and when none of its entries starts with the
  base name of \<open>F\<close> the response is a 404 with body \<^verbatim>\<open>{"error": "JSON not found"}\<close>;
  otherwise (entry names being non-empty, as they are in a directory) the response is
  the parsed content of the greatest entry that starts with the base name, with status
  200, and an artifact that cannot be read or parsed raises instead.
\<close>

theorem get_json_responses:
  assumes "get_available_models fs = Inr ms"
  shows "(M \<notin> set ms \<longrightarrow>
            get_json codec pf fs M F =
              Inr \<lparr>status = 404, body = JObj [(''error'', JStr ''Invalid model'')]\<rparr>)
       \<and> (M \<in> set ms \<longrightarrow>
            (\<exists>D. listdir fs (results_folder @ [M]) = Inr D
               \<and> ({f \<in> set D. prefix (fst (os_path_splitext pf F)) f} = {} \<longrightarrow>
                    get_json codec pf fs M F =
                      Inr \<lparr>status = 404, body = JObj [(''error'', JStr ''JSON not found'')]\<rparr>)
               \<and> ({f \<in> set D. prefix (fst (os_path_splitext pf F)) f} \<noteq> {} \<and> [] \<notin> set D \<longrightarrow>
                    get_json codec pf fs M F =
                      (case load_json codec fs
                              (results_folder @
                                 [M, Max {f \<in> set D. prefix (fst (os_path_splitext pf F)) f}]) of
                         Inl e \<Rightarrow> Inl e
                       | Inr doc \<Rightarrow> Inr \<lparr>status = 200, body = doc\<rparr>))))"
proof (intro conjI impI)
  assume "M \<notin> set ms"
  then show "get_json codec pf fs M F =
              Inr \<lparr>status = 404, body = JObj [(''error'', JStr ''Invalid model'')]\<rparr>"
    using assms by (simp add: get_json_def)
next
  assume M: "M \<in> set ms"
  from available_model_listdir[OF assms M] obtain D where
    D: "listdir fs (results_folder @ [M]) = Inr D" by blast
  let ?S = "{f \<in> set D. prefix (fst (os_path_splitext pf F)) f}"
  note latest = app_get_latest_json_max[OF D, of pf F]
  have none: "get_json codec pf fs M F =
       Inr \<lparr>status = 404, body = JObj [(''error'', JStr ''JSON not found'')]\<rparr>"
    if "?S = {}"
  proof -
    have "app_get_latest_json pf fs F M = Inr None"
      using latest that by simp
    then show ?thesis
      using assms M by (simp add: get_json_def)
  qed
  have some: "get_json codec pf fs M F =
       (case load_json codec fs (results_folder @ [M, Max ?S]) of
          Inl e \<Rightarrow> Inl e
        | Inr doc \<Rightarrow> Inr \<lparr>status = 200, body = doc\<rparr>)"
    if ne: "?S \<noteq> {}" and names: "[] \<notin> set D"
  proof -
    have "Max ?S \<in> ?S" using ne by (intro Max_in) auto
    then have "Max ?S \<noteq> []" using names by auto
    moreover have "app_get_latest_json pf fs F M = Inr (Some (Max ?S))"
      using latest ne by simp
    ultimately show ?thesis
      using assms M by (simp add: get_json_def)
  qed
  from D none some
  show "\<exists>D. listdir fs (results_folder @ [M]) = Inr D
          \<and> ({f \<in> set D. prefix (fst (os_path_splitext pf F)) f} = {} \<longrightarrow>
               get_json codec pf fs M F =
                 Inr \<lparr>status = 404, body = JObj [(''error'', JStr ''JSON not found'')]\<rparr>)
          \<and> ({f \<in> set D. prefix (fst (os_path_splitext pf F)) f} \<noteq> {} \<and> [] \<notin> set D \<longrightarrow>
               get_json codec pf fs M F =
                 (case load_json codec fs
                         (results_folder @
                            [M, Max {f \<in> set D. prefix (fst (os_path_splitext pf F)) f}]) of
                    Inl e \<Rightarrow> Inl e
                  | Inr doc \<Rightarrow> Inr \<lparr>status = 200, body = doc\<rparr>))"
    by blast
qed

theorem get_json_responses_witness:
  "get_available_models demo_app_fs = Inr [''m2'', ''m1'']
   \<and> ''unknown_model'' \<notin> set [''m2'', ''m1'']
   \<and> get_json demo_codec nt demo_app_fs ''unknown_model'' ''a.jpg'' =
        Inr \<lparr>status = 404, body = JObj [(''error'', JStr ''Invalid model'')]\<rparr>
   \<and> ''m2'' \<in> set [''m2'', ''m1'']
   \<and> listdir demo_app_fs (results_folder @ [''m2'']) = Inr []
   \<and> get_json demo_codec nt demo_app_fs ''m2'' ''a.jpg'' =
        Inr \<lparr>status = 404, body = JObj [(''error'', JStr ''JSON not found'')]\<rparr>
   \<and> ''m1'' \<in> set [''m2'', ''m1'']
   \<and> listdir demo_app_fs (results_folder @ [''m1'']) =
        Inr [''a_20240101.json'', ''a_20240102.json'', ''c_1.json'']
   \<and> ''a_20240102.json'' \<in> {f \<in> set [''a_20240101.json'', ''a_20240102.json'', ''c_1.json''].
                                prefix (fst (os_path_splitext nt ''a.jpg'')) f}
   \<and> [] \<notin> set [''a_20240101.json'', ''a_20240102.json'', ''c_1.json'']
   \<and> get_json demo_codec nt demo_app_fs ''m1'' ''a.jpg'' =
        Inr \<lparr>status = 200, body = JObj [(''metadata'', JStr ''new''), (''score'', JInt 2)]\<rparr>
   \<and> get_json demo_codec nt demo_app_fs ''m1'' ''a.jpg'' =
        (case load_json demo_codec demo_app_fs
                (results_folder @
                   [''m1'', Max {f \<in> set [''a_20240101.json'', ''a_20240102.json'', ''c_1.json''].
                                   prefix (fst (os_path_splitext nt ''a.jpg'')) f}]) of
           Inl e \<Rightarrow> Inl e
         | Inr doc \<Rightarrow> Inr \<lparr>status = 200, body = doc\<rparr>)"
proof -
  have h: "get_available_models demo_app_fs = Inr [''m2'', ''m1'']" by code_simp
  have l2: "listdir demo_app_fs (results_folder @ [''m2'']) = Inr []" by code_simp
  have l1: "listdir demo_app_fs (results_folder @ [''m1'']) =
        Inr [''a_20240101.json'', ''a_20240102.json'', ''c_1.json'']" by code_simp
  have b: "fst (os_path_splitext nt ''a.jpg'') = ''a''" by code_simp
  have r: "get_json demo_codec nt demo_app_fs ''m1'' ''a.jpg'' =
        Inr \<lparr>status = 200, body = JObj [(''metadata'', JStr ''new''), (''score'', JInt 2)]\<rparr>"
    by code_simp
  have c1: "get_json demo_codec nt demo_app_fs ''unknown_model'' ''a.jpg'' =
        Inr \<lparr>status = 404, body = JObj [(''error'', JStr ''Invalid model'')]\<rparr>"
    using get_json_responses[OF h, of "''unknown_model''" demo_codec nt "''a.jpg''"] by simp
  have c2: "get_json demo_codec nt demo_app_fs ''m2'' ''a.jpg'' =
        Inr \<lparr>status = 404, body = JObj [(''error'', JStr ''JSON not found'')]\<rparr>"
    using get_json_responses[OF h, of "''m2''" demo_codec nt "''a.jpg''"] l2 by auto
  have m: "''a_20240102.json'' \<in> {f \<in> set [''a_20240101.json'', ''a_20240102.json'', ''c_1.json''].
                                prefix (fst (os_path_splitext nt ''a.jpg'')) f}"
    by (simp add: b)
  have c3: "get_json demo_codec nt demo_app_fs ''m1'' ''a.jpg'' =
        (case load_json demo_codec demo_app_fs
                (results_folder @
                   [''m1'', Max {f \<in> set [''a_20240101.json'', ''a_20240102.json'', ''c_1.json''].
                                   prefix (fst (os_path_splitext nt ''a.jpg'')) f}]) of
           Inl e \<Rightarrow> Inl e
         | Inr doc \<Rightarrow> Inr \<lparr>status = 200, body = doc\<rparr>)"
    using get_json_responses[OF h, of "''m1''" demo_codec nt "''a.jpg''"] l1 m by auto
  from h l2 l1 r c1 c2 m c3 show ?thesis by simp
qed

text \<open>
  An artifact that resolves but does not parse: the exception of \<^verbatim>\<open>json.load\<close> leaves
  \<^verbatim>\<open>get_json\<close>, and the caller gets a server error.
\<close>

lemma get_json_unreadable:
  "get_json demo_codec nt demo_app_fs ''m1'' ''c.jpg'' = Inl JSONDecodeError"
  by code_simp

section \<open>Listing the image files\<close>

text \<open>What the pipeline's \<^verbatim>\<open>get_image_files\<close> selects, for every listing.\<close>

lemma get_image_files_selects:
  "listdir src image_dir = Inr D \<Longrightarrow>
   get_image_files src =
     Inr (sort (filter (\<lambda>f. suffix ''.jpg'' (lower f) \<or> suffix ''.jpeg'' (lower f)
                              \<or> suffix ''.png'' (lower f)) D))"
  by (simp add: get_image_files_def endswith_any_def endswith_def)

text \<open>
  Claim C6. Both listings of the image files, the pipeline's \<^verbatim>\<open>get_image_files\<close> and the
  query service's \<^verbatim>\<open>GET /api/files\<close>, are to select the entries whose name ends, in any
  letter case, with \<^verbatim>\<open>.jpg\<close>, \<^verbatim>\<open>.jpeg\<close> or \<^verbatim>\<open>.png\<close>, and to return them sorted. On a
  directory holding \<^verbatim>\<open>b.png\<close>, \<^verbatim>\<open>a.jpg\<close> and \<^verbatim>\<open>C.JPG\<close> the pipeline returns all three,
  sorted, and the query service returns \<^verbatim>\<open>a.jpg\<close> alone.
\<close>

theorem get_files_misses_images:
  "listdir demo_app_fs image_folder = Inr [''b.png'', ''a.jpg'', ''C.JPG'']
   \<and> get_files demo_app_fs = Inr \<lparr>status = 200, body = JArr [JStr ''a.jpg'']\<rparr>
   \<and> listdir demo_app_fs image_dir = Inr [''b.png'', ''a.jpg'', ''C.JPG'']
   \<and> get_image_files demo_app_fs = Inr [''C.JPG'', ''a.jpg'', ''b.png'']"
  by code_simp

section \<open>Publishing twice\<close>

lemma replaysI:
  assumes "\<And>s s'. wf_out s \<Longrightarrow> f s = Inr s' \<Longrightarrow>
     wf_out s' \<and> dirs s \<subseteq> dirs s' \<and> dom (files s) \<subseteq> dom (files s') \<and>
     (\<exists>W. (\<forall>p. p \<notin> W \<longrightarrow> files s' p = files s p \<and> modes s' p = modes s p) \<and>
          (\<forall>p \<in> W. settled C s' p) \<and>
          (\<forall>T. wf_out T \<and> dirs s' \<subseteq> dirs T \<and> dom (files s') \<subseteq> dom (files T) \<and>
               (\<forall>p \<in> W. settled C T p) \<longrightarrow>
               f T = Inr T \<or> (f T = Inl (PermissionError, T) \<and> \<not> all_writable pf T)))"
  shows "replays pf C f"
  unfolding replays_def
proof (intro allI impI)
  fix s s'
  assume "wf_out s \<and> f s = Inr s'"
  then have "wf_out s" and "f s = Inr s'" by simp_all
  then show "wf_out s' \<and> dirs s \<subseteq> dirs s' \<and> dom (files s) \<subseteq> dom (files s') \<and>
     (\<exists>W. (\<forall>p. p \<notin> W \<longrightarrow> files s' p = files s p \<and> modes s' p = modes s p) \<and>
          (\<forall>p \<in> W. settled C s' p) \<and>
          (\<forall>T. wf_out T \<and> dirs s' \<subseteq> dirs T \<and> dom (files s') \<subseteq> dom (files T) \<and>
               (\<forall>p \<in> W. settled C T p) \<longrightarrow>
               f T = Inr T \<or> (f T = Inl (PermissionError, T) \<and> \<not> all_writable pf T)))"
    by (rule assms)
qed

lemma replaysD:
  assumes "replays pf C f" and "wf_out s" and "f s = Inr s'"
  obtains W where "wf_out s'" and "dirs s \<subseteq> dirs s'" and "dom (files s) \<subseteq> dom (files s')"
    and "\<And>p. p \<notin> W \<Longrightarrow> files s' p = files s p \<and> modes s' p = modes s p"
    and "\<And>p. p \<in> W \<Longrightarrow> settled C s' p"
    and "\<And>T. wf_out T \<Longrightarrow> dirs s' \<subseteq> dirs T \<Longrightarrow> dom (files s') \<subseteq> dom (files T) \<Longrightarrow>
            (\<And>p. p \<in> W \<Longrightarrow> settled C T p) \<Longrightarrow>
            f T = Inr T \<or> (f T = Inl (PermissionError, T) \<and> \<not> all_writable pf T)"
proof -
  from assms(1) have
    "wf_out s \<and> f s = Inr s' \<longrightarrow>
        wf_out s' \<and> dirs s \<subseteq> dirs s' \<and> dom (files s) \<subseteq> dom (files s') \<and>
        (\<exists>W. (\<forall>p. p \<notin> W \<longrightarrow> files s' p = files s p \<and> modes s' p = modes s p) \<and>
          (\<forall>p \<in> W. settled C s' p) \<and>
          (\<forall>T. wf_out T \<and> dirs s' \<subseteq> dirs T \<and> dom (files s') \<subseteq> dom (files T) \<and>
               (\<forall>p \<in> W. settled C T p) \<longrightarrow>
               f T = Inr T \<or> (f T = Inl (PermissionError, T) \<and> \<not> all_writable pf T)))"
    unfolding replays_def by (elim allE)
  with assms(2,3) have a: "wf_out s'" "dirs s \<subseteq> dirs s'" "dom (files s) \<subseteq> dom (files s')"
    and b: "\<exists>W. (\<forall>p. p \<notin> W \<longrightarrow> files s' p = files s p \<and> modes s' p = modes s p) \<and>
          (\<forall>p \<in> W. settled C s' p) \<and>
          (\<forall>T. wf_out T \<and> dirs s' \<subseteq> dirs T \<and> dom (files s') \<subseteq> dom (files T) \<and>
               (\<forall>p \<in> W. settled C T p) \<longrightarrow>
               f T = Inr T \<or> (f T = Inl (PermissionError, T) \<and> \<not> all_writable pf T))"
    by simp_all
  from b obtain W where
    fr: "\<forall>p. p \<notin> W \<longrightarrow> files s' p = files s p \<and> modes s' p = modes s p"
    and st: "\<forall>p \<in> W. settled C s' p"
    and r: "\<forall>T. wf_out T \<and> dirs s' \<subseteq> dirs T \<and> dom (files s') \<subseteq> dom (files T) \<and>
               (\<forall>p \<in> W. settled C T p) \<longrightarrow>
               f T = Inr T \<or> (f T = Inl (PermissionError, T) \<and> \<not> all_writable pf T)"
    by (elim exE conjE)
  show thesis
  proof (rule that[OF a, of W])
    fix p assume "p \<notin> W"
    with fr show "files s' p = files s p \<and> modes s' p = modes s p" by simp
  next
    fix p assume "p \<in> W"
    with st show "settled C s' p" by simp
  next
    fix T assume "wf_out T" "dirs s' \<subseteq> dirs T" "dom (files s') \<subseteq> dom (files T)"
      and "\<And>p. p \<in> W \<Longrightarrow> settled C T p"
    with r show "f T = Inr T \<or> (f T = Inl (PermissionError, T) \<and> \<not> all_writable pf T)"
      by simp
  qed
qed

lemma replays_again:
  assumes "replays pf C f" and "wf_out s" and "f s = Inr s'"
  shows "f s' = Inr s' \<or> (f s' = Inl (PermissionError, s') \<and> \<not> all_writable pf s')"
proof (rule replaysD[OF assms])
  fix W
  assume wf: "wf_out s'" and st: "\<And>p. p \<in> W \<Longrightarrow> settled C s' p"
    and again: "\<And>T. wf_out T \<Longrightarrow> dirs s' \<subseteq> dirs T \<Longrightarrow> dom (files s') \<subseteq> dom (files T) \<Longrightarrow>
            (\<And>p. p \<in> W \<Longrightarrow> settled C T p) \<Longrightarrow>
            f T = Inr T \<or> (f T = Inl (PermissionError, T) \<and> \<not> all_writable pf T)"
  show ?thesis
    by (rule again) (simp_all add: wf st)
qed

lemma replays_skip: "replays pf C (\<lambda>t. Inr t)"
proof (rule replaysI)
  fix s s' :: out_tree
  assume wf: "wf_out s" and "Inr s = (Inr s' :: (error \<times> out_tree) + out_tree)"
  then have eq: "s' = s" by simp
  have "(\<forall>p. p \<notin> {} \<longrightarrow> files s p = files s p \<and> modes s p = modes s p) \<and>
          (\<forall>p \<in> {}. settled C s p) \<and>
          (\<forall>T. wf_out T \<and> dirs s \<subseteq> dirs T \<and> dom (files s) \<subseteq> dom (files T) \<and>
               (\<forall>p \<in> {}. settled C T p) \<longrightarrow>
               (Inr T :: (error \<times> out_tree) + out_tree) = Inr T
               \<or> ((Inr T :: (error \<times> out_tree) + out_tree) = Inl (PermissionError, T)
                  \<and> \<not> all_writable pf T))"
    by simp
  then have "\<exists>W. (\<forall>p. p \<notin> W \<longrightarrow> files s p = files s p \<and> modes s p = modes s p) \<and>
          (\<forall>p \<in> W. settled C s p) \<and>
          (\<forall>T. wf_out T \<and> dirs s \<subseteq> dirs T \<and> dom (files s) \<subseteq> dom (files T) \<and>
               (\<forall>p \<in> W. settled C T p) \<longrightarrow>
               (Inr T :: (error \<times> out_tree) + out_tree) = Inr T
               \<or> ((Inr T :: (error \<times> out_tree) + out_tree) = Inl (PermissionError, T)
                  \<and> \<not> all_writable pf T))"
    by (rule exI)
  with wf show "wf_out s' \<and> dirs s \<subseteq> dirs s' \<and> dom (files s) \<subseteq> dom (files s') \<and>
     (\<exists>W. (\<forall>p. p \<notin> W \<longrightarrow> files s' p = files s p \<and> modes s' p = modes s p) \<and>
          (\<forall>p \<in> W. settled C s' p) \<and>
          (\<forall>T. wf_out T \<and> dirs s' \<subseteq> dirs T \<and> dom (files s') \<subseteq> dom (files T) \<and>
               (\<forall>p \<in> W. settled C T p) \<longrightarrow>
               Inr T = Inr T \<or> (Inr T = Inl (PermissionError, T) \<and> \<not> all_writable pf T)))"
    unfolding eq by simp
qed

lemma replays_raise: "replays pf C (\<lambda>t. Inl (e, t))"
  by (rule replaysI) simp

lemma settled_same:
  "files s' p = files s p \<Longrightarrow> modes s' p = modes s p \<Longrightarrow> settled C s p \<Longrightarrow> settled C s' p"
  unfolding settled_def by (auto split: option.splits)

lemma replays_seq:
  assumes f: "replays pf C f" and g: "replays pf C g"
  shows "replays pf C (\<lambda>t. case f t of Inl x \<Rightarrow> Inl x | Inr t1 \<Rightarrow> g t1)"
proof (rule replaysI)
  fix s s'
  assume wf: "wf_out s" and run: "(case f s of Inl x \<Rightarrow> Inl x | Inr t1 \<Rightarrow> g t1) = Inr s'"
  from run obtain s1 where f1: "f s = Inr s1" and g1: "g s1 = Inr s'"
    by (cases "f s") simp_all
  show "wf_out s' \<and> dirs s \<subseteq> dirs s' \<and> dom (files s) \<subseteq> dom (files s') \<and>
     (\<exists>W. (\<forall>p. p \<notin> W \<longrightarrow> files s' p = files s p \<and> modes s' p = modes s p) \<and>
          (\<forall>p \<in> W. settled C s' p) \<and>
          (\<forall>T. wf_out T \<and> dirs s' \<subseteq> dirs T \<and> dom (files s') \<subseteq> dom (files T) \<and>
               (\<forall>p \<in> W. settled C T p) \<longrightarrow>
               (case f T of Inl x \<Rightarrow> Inl x | Inr t1 \<Rightarrow> g t1) = Inr T
               \<or> ((case f T of Inl x \<Rightarrow> Inl x | Inr t1 \<Rightarrow> g t1) = Inl (PermissionError, T)
                  \<and> \<not> all_writable pf T)))"
  proof (rule replaysD[OF f wf f1])
    fix W1
    assume wf1: "wf_out s1" and d1: "dirs s \<subseteq> dirs s1" and m1: "dom (files s) \<subseteq> dom (files s1)"
      and fr1: "\<And>p. p \<notin> W1 \<Longrightarrow> files s1 p = files s p \<and> modes s1 p = modes s p"
      and st1: "\<And>p. p \<in> W1 \<Longrightarrow> settled C s1 p"
      and r1: "\<And>T. wf_out T \<Longrightarrow> dirs s1 \<subseteq> dirs T \<Longrightarrow> dom (files s1) \<subseteq> dom (files T) \<Longrightarrow>
            (\<And>p. p \<in> W1 \<Longrightarrow> settled C T p) \<Longrightarrow>
            f T = Inr T \<or> (f T = Inl (PermissionError, T) \<and> \<not> all_writable pf T)"
    show ?thesis
    proof (rule replaysD[OF g wf1 g1])
      fix W2
      assume wf2: "wf_out s'" and d2: "dirs s1 \<subseteq> dirs s'"
        and m2: "dom (files s1) \<subseteq> dom (files s')"
        and fr2: "\<And>p. p \<notin> W2 \<Longrightarrow> files s' p = files s1 p \<and> modes s' p = modes s1 p"
        and st2: "\<And>p. p \<in> W2 \<Longrightarrow> settled C s' p"
        and r2: "\<And>T. wf_out T \<Longrightarrow> dirs s' \<subseteq> dirs T \<Longrightarrow> dom (files s') \<subseteq> dom (files T) \<Longrightarrow>
            (\<And>p. p \<in> W2 \<Longrightarrow> settled C T p) \<Longrightarrow>
            g T = Inr T \<or> (g T = Inl (PermissionError, T) \<and> \<not> all_writable pf T)"
      have frame: "files s' p = files s p \<and> modes s' p = modes s p" if "p \<notin> W1 \<union> W2" for p
      proof -
        from that have n1: "p \<notin> W1" and n2: "p \<notin> W2" by simp_all
        from fr1[OF n1] fr2[OF n2] show ?thesis by simp
      qed
      have st: "settled C s' p" if "p \<in> W1 \<union> W2" for p
      proof (cases "p \<in> W2")
        case True
        then show ?thesis by (rule st2)
      next
        case False
        with that have "p \<in> W1" by simp
        then have "settled C s1 p" by (rule st1)
        moreover from fr2[OF False] have "files s' p = files s1 p" and "modes s' p = modes s1 p"
          by simp_all
        ultimately show ?thesis by (intro settled_same[of s' p s1])
      qed
      have again: "(case f T of Inl x \<Rightarrow> Inl x | Inr t1 \<Rightarrow> g t1) = Inr T
               \<or> ((case f T of Inl x \<Rightarrow> Inl x | Inr t1 \<Rightarrow> g t1) = Inl (PermissionError, T)
                  \<and> \<not> all_writable pf T)"
        if T: "wf_out T" "dirs s' \<subseteq> dirs T" "dom (files s') \<subseteq> dom (files T)"
          and TW: "\<And>p. p \<in> W1 \<union> W2 \<Longrightarrow> settled C T p" for T
      proof -
        have a: "dirs s1 \<subseteq> dirs T" using d2 T(2) by (rule subset_trans)
        have b: "dom (files s1) \<subseteq> dom (files T)" using m2 T(3) by (rule subset_trans)
        have "f T = Inr T \<or> (f T = Inl (PermissionError, T) \<and> \<not> all_writable pf T)"
        proof (rule r1[OF T(1) a b])
          fix p assume "p \<in> W1"
          then have "p \<in> W1 \<union> W2" by simp
          then show "settled C T p" by (rule TW)
        qed
        then show ?thesis
        proof
          assume fT: "f T = Inr T"
          have "g T = Inr T \<or> (g T = Inl (PermissionError, T) \<and> \<not> all_writable pf T)"
          proof (rule r2[OF T])
            fix p assume "p \<in> W2"
            then have "p \<in> W1 \<union> W2" by simp
            then show "settled C T p" by (rule TW)
          qed
          with fT show ?thesis by simp
        next
          assume "f T = Inl (PermissionError, T) \<and> \<not> all_writable pf T"
          then show ?thesis by simp
        qed
      qed
      have d: "dirs s \<subseteq> dirs s'" using d1 d2 by (rule subset_trans)
      have m: "dom (files s) \<subseteq> dom (files s')" using m1 m2 by (rule subset_trans)
      have "(\<forall>p. p \<notin> W1 \<union> W2 \<longrightarrow> files s' p = files s p \<and> modes s' p = modes s p) \<and>
          (\<forall>p \<in> W1 \<union> W2. settled C s' p) \<and>
          (\<forall>T. wf_out T \<and> dirs s' \<subseteq> dirs T \<and> dom (files s') \<subseteq> dom (files T) \<and>
               (\<forall>p \<in> W1 \<union> W2. settled C T p) \<longrightarrow>
               (case f T of Inl x \<Rightarrow> Inl x | Inr t1 \<Rightarrow> g t1) = Inr T
               \<or> ((case f T of Inl x \<Rightarrow> Inl x | Inr t1 \<Rightarrow> g t1) = Inl (PermissionError, T)
                  \<and> \<not> all_writable pf T))"
      proof (intro conjI allI impI ballI)
        fix p assume "p \<notin> W1 \<union> W2"
        then show "files s' p = files s p" using frame by simp
      next
        fix p assume "p \<notin> W1 \<union> W2"
        then show "modes s' p = modes s p" using frame by simp
      next
        fix p assume "p \<in> W1 \<union> W2"
        then show "settled C s' p" by (rule st)
      next
        fix T
        assume h: "wf_out T \<and> dirs s' \<subseteq> dirs T \<and> dom (files s') \<subseteq> dom (files T) \<and>
               (\<forall>p \<in> W1 \<union> W2. settled C T p)"
        from h have h1: "wf_out T" and h2: "dirs s' \<subseteq> dirs T"
          and h3: "dom (files s') \<subseteq> dom (files T)"
          and h4: "\<forall>p \<in> W1 \<union> W2. settled C T p"
          by blast+
        show "(case f T of Inl x \<Rightarrow> Inl x | Inr t1 \<Rightarrow> g t1) = Inr T
               \<or> ((case f T of Inl x \<Rightarrow> Inl x | Inr t1 \<Rightarrow> g t1) = Inl (PermissionError, T)
                  \<and> \<not> all_writable pf T)"
        proof (rule again[OF h1 h2 h3])
          fix p assume "p \<in> W1 \<union> W2"
          with h4 show "settled C T p" by (rule bspec)
        qed
      qed
      then have "\<exists>W. (\<forall>p. p \<notin> W \<longrightarrow> files s' p = files s p \<and> modes s' p = modes s p) \<and>
          (\<forall>p \<in> W. settled C s' p) \<and>
          (\<forall>T. wf_out T \<and> dirs s' \<subseteq> dirs T \<and> dom (files s') \<subseteq> dom (files T) \<and>
               (\<forall>p \<in> W. settled C T p) \<longrightarrow>
               (case f T of Inl x \<Rightarrow> Inl x | Inr t1 \<Rightarrow> g t1) = Inr T
               \<or> ((case f T of Inl x \<Rightarrow> Inl x | Inr t1 \<Rightarrow> g t1) = Inl (PermissionError, T)
                  \<and> \<not> all_writable pf T))"
        by (rule exI)
      with wf2 d m show ?thesis by (intro conjI)
    qed
  qed
qed

lemma replays_pure:
  assumes "\<And>v. x = Inr v \<Longrightarrow> replays pf C (g v)"
  shows "replays pf C (\<lambda>t. case x of Inl e \<Rightarrow> Inl (e, t) | Inr v \<Rightarrow> g v t)"
proof (cases x)
  case (Inl e)
  then show ?thesis by (simp add: replays_raise)
next
  case (Inr v)
  with assms show ?thesis by simp
qed

lemma wf_out_not_both: "wf_out t \<Longrightarrow> p \<in> dirs t \<Longrightarrow> files t p = None"
  unfolding wf_out_def by (cases "files t p") (auto simp: dom_def)

lemma wf_out_file_not_dir: "wf_out t \<Longrightarrow> p \<in> dom (files t) \<Longrightarrow> p \<notin> dirs t"
  unfolding wf_out_def by blast

lemma open_w_Inr:
  "open_w pf q s = Inr s' \<Longrightarrow>
     q \<notin> dirs s \<and> files s (butlast q) = None \<and> butlast q \<in> dirs s
     \<and> dirs s' = dirs s \<and> files s' = (files s)(q \<mapsto> [])
     \<and> (files s q \<noteq> None \<longrightarrow> may_write pf (modes s q) \<and> modes s' = modes s)
     \<and> (files s q = None \<longrightarrow> modes s' = (modes s)(q := create_mode pf))"
  unfolding open_w_def by (auto split: if_splits)

lemma open_w_modes_other: "open_w pf q s = Inr s' \<Longrightarrow> p \<noteq> q \<Longrightarrow> modes s' p = modes s p"
  using open_w_Inr[of pf q s s'] by (cases "files s q") auto

lemma open_w_existing:
  assumes "q \<notin> dirs T" and "files T (butlast q) = None" and "butlast q \<in> dirs T"
    and "files T q = Some c"
  shows "open_w pf q T =
     (if may_write pf (modes T q) then Inr (T\<lparr>files := (files T)(q \<mapsto> [])\<rparr>)
      else Inl (PermissionError, T))"
  using assms unfolding open_w_def by simp

lemma rewrite_same:
  "files T q = Some c \<Longrightarrow>
   T\<lparr>files := (files T)(q \<mapsto> []), files := ((files T)(q \<mapsto> []))(q \<mapsto> c)\<rparr> = T"
  by (simp add: map_upd_triv)

lemma not_all_writable: "files T q = Some c \<Longrightarrow> \<not> may_write pf (modes T q) \<Longrightarrow> \<not> all_writable pf T"
  unfolding all_writable_def by auto

lemma set_prefixes_butlast: "set (prefixes p) = insert p (set (butlast (prefixes p)))"
proof -
  have "butlast (prefixes p) @ [last (prefixes p)] = prefixes p"
    by (rule append_butlast_last_id) (rule prefixes_not_Nil)
  then have "butlast (prefixes p) @ [p] = prefixes p"
    by (simp only: last_prefixes)
  then have "set (prefixes p) = set (butlast (prefixes p) @ [p])"
    by (rule arg_cong[OF sym])
  then show ?thesis by simp
qed

lemma makedirs_Inr:
  "makedirs p s = Inr s' \<longleftrightarrow>
     (\<forall>q \<in> set (prefixes p). files s q = None) \<and> s' = s\<lparr>dirs := dirs s \<union> set (prefixes p)\<rparr>"
proof -
  have "(\<forall>q \<in> set (prefixes p). files s q = None) \<longleftrightarrow>
        files s p = None \<and> \<not> list_ex (\<lambda>q. files s q \<noteq> None) (butlast (prefixes p))"
    unfolding list_ex_iff by (subst set_prefixes_butlast) auto
  then show ?thesis
    unfolding makedirs_def by (auto split: if_splits)
qed

lemma replays_makedirs: "replays pf C (makedirs p)"
proof (rule replaysI)
  fix s s'
  assume wf: "wf_out s" and run: "makedirs p s = Inr s'"
  from run have free: "\<forall>q \<in> set (prefixes p). files s q = None"
    and s': "s' = s\<lparr>dirs := dirs s \<union> set (prefixes p)\<rparr>"
    unfolding makedirs_Inr by simp_all
  have d': "dirs s' = dirs s \<union> set (prefixes p)" and f': "files s' = files s"
    and m': "modes s' = modes s"
    unfolding s' by simp_all
  have wf': "wf_out s'"
    using wf free unfolding wf_out_def d' f' by (auto simp: dom_def)
  have again: "makedirs p T = Inr T"
    if T: "wf_out T" "dirs s' \<subseteq> dirs T" for T
  proof -
    have sub: "set (prefixes p) \<subseteq> dirs T" using T(2) unfolding d' by blast
    have a: "\<forall>q \<in> set (prefixes p). files T q = None"
    proof
      fix q assume "q \<in> set (prefixes p)"
      then have "q \<in> dirs T" using sub by blast
      with T(1) show "files T q = None" by (rule wf_out_not_both)
    qed
    have b: "dirs T \<union> set (prefixes p) = dirs T" using sub by blast
    show ?thesis unfolding makedirs_Inr using a b by simp
  qed
  have "(\<forall>q. q \<notin> {} \<longrightarrow> files s' q = files s q \<and> modes s' q = modes s q) \<and>
          (\<forall>q \<in> {}. settled C s' q) \<and>
          (\<forall>T. wf_out T \<and> dirs s' \<subseteq> dirs T \<and> dom (files s') \<subseteq> dom (files T) \<and>
               (\<forall>q \<in> {}. settled C T q) \<longrightarrow>
               makedirs p T = Inr T
               \<or> (makedirs p T = Inl (PermissionError, T) \<and> \<not> all_writable pf T))"
    using again by (simp add: f' m')
  then have "\<exists>W. (\<forall>q. q \<notin> W \<longrightarrow> files s' q = files s q \<and> modes s' q = modes s q) \<and>
          (\<forall>q \<in> W. settled C s' q) \<and>
          (\<forall>T. wf_out T \<and> dirs s' \<subseteq> dirs T \<and> dom (files s') \<subseteq> dom (files T) \<and>
               (\<forall>q \<in> W. settled C T q) \<longrightarrow>
               makedirs p T = Inr T
               \<or> (makedirs p T = Inl (PermissionError, T) \<and> \<not> all_writable pf T))"
    by (rule exI)
  moreover have "dirs s \<subseteq> dirs s'" unfolding d' by simp
  moreover have "dom (files s) \<subseteq> dom (files s')" unfolding f' by simp
  ultimately show "wf_out s' \<and> dirs s \<subseteq> dirs s' \<and> dom (files s) \<subseteq> dom (files s') \<and>
     (\<exists>W. (\<forall>q. q \<notin> W \<longrightarrow> files s' q = files s q \<and> modes s' q = modes s q) \<and>
          (\<forall>q \<in> W. settled C s' q) \<and>
          (\<forall>T. wf_out T \<and> dirs s' \<subseteq> dirs T \<and> dom (files s') \<subseteq> dom (files T) \<and>
               (\<forall>q \<in> W. settled C T q) \<longrightarrow>
               makedirs p T = Inr T
               \<or> (makedirs p T = Inl (PermissionError, T) \<and> \<not> all_writable pf T)))"
    using wf' by (intro conjI)
qed

lemma dump_json_Inr:
  "dump_json codec pf a v q s = Inr s' \<Longrightarrow>
   \<exists>s1 rendered. open_w pf q s = Inr s1 \<and> dumps codec a v = Inr rendered
      \<and> s' = s1\<lparr>files := (files s1)(q \<mapsto> rendered)\<rparr>"
  unfolding dump_json_def by (auto split: sum.splits)

lemma replays_dump_json:
  assumes val: "\<And>rendered m. dumps codec a v = Inr rendered \<Longrightarrow> C p rendered m"
    and fn: "\<And>c m c' m'. C p c m \<Longrightarrow> C p c' m' \<Longrightarrow> c = c'"
  shows "replays pf C (dump_json codec pf a v p)"
proof (rule replaysI)
  fix s s'
  assume wf: "wf_out s" and run: "dump_json codec pf a v p s = Inr s'"
  from dump_json_Inr[OF run] obtain s1 rendered where
    op: "open_w pf p s = Inr s1" and d: "dumps codec a v = Inr rendered"
    and s': "s' = s1\<lparr>files := (files s1)(p \<mapsto> rendered)\<rparr>"
    by blast
  from open_w_Inr[OF op] have nd: "p \<notin> dirs s" and par: "butlast p \<in> dirs s"
    and d1: "dirs s1 = dirs s" and f1: "files s1 = (files s)(p \<mapsto> [])"
    by simp_all
  have d': "dirs s' = dirs s" unfolding s' by (simp add: d1)
  have f': "files s' = (files s)(p \<mapsto> rendered)" unfolding s' by (simp add: f1)
  have m': "modes s' q = modes s q" if "q \<noteq> p" for q
    using open_w_modes_other[OF op that] unfolding s' by simp
  have wf': "wf_out s'"
    using wf nd unfolding wf_out_def d' f' by auto
  have st: "settled C s' p"
    unfolding settled_def f' using val[OF d] by simp
  have again: "dump_json codec pf a v p T = Inr T
               \<or> (dump_json codec pf a v p T = Inl (PermissionError, T) \<and> \<not> all_writable pf T)"
    if T: "wf_out T" "dirs s' \<subseteq> dirs T" "settled C T p" for T
  proof -
    from T(3) obtain c where c: "files T p = Some c" and cC: "C p c (modes T p)"
      unfolding settled_def by (cases "files T p") simp_all
    have "c = rendered" using cC val[OF d] by (rule fn)
    with c have fT: "files T p = Some rendered" by simp
    then have "p \<in> dom (files T)" by blast
    with T(1) have a: "p \<notin> dirs T" by (rule wf_out_file_not_dir)
    have b: "butlast p \<in> dirs T" using par T(2) unfolding d' by blast
    have e: "files T (butlast p) = None" using T(1) b by (rule wf_out_not_both)
    note ow = open_w_existing[OF a e b fT, of pf]
    show ?thesis
    proof (cases "may_write pf (modes T p)")
      case True
      with ow have "open_w pf p T = Inr (T\<lparr>files := (files T)(p \<mapsto> [])\<rparr>)" by simp
      then have "dump_json codec pf a v p T =
          Inr (T\<lparr>files := (files T)(p \<mapsto> []), files := ((files T)(p \<mapsto> []))(p \<mapsto> rendered)\<rparr>)"
        unfolding dump_json_def by (simp add: d)
      then show ?thesis unfolding rewrite_same[OF fT] by simp
    next
      case False
      with ow have "open_w pf p T = Inl (PermissionError, T)" by simp
      then have "dump_json codec pf a v p T = Inl (PermissionError, T)"
        unfolding dump_json_def by simp
      with not_all_writable[OF fT False] show ?thesis by simp
    qed
  qed
  have "(\<forall>q. q \<notin> {p} \<longrightarrow> files s' q = files s q \<and> modes s' q = modes s q) \<and>
          (\<forall>q \<in> {p}. settled C s' q) \<and>
          (\<forall>T. wf_out T \<and> dirs s' \<subseteq> dirs T \<and> dom (files s') \<subseteq> dom (files T) \<and>
               (\<forall>q \<in> {p}. settled C T q) \<longrightarrow>
               dump_json codec pf a v p T = Inr T
               \<or> (dump_json codec pf a v p T = Inl (PermissionError, T) \<and> \<not> all_writable pf T))"
  proof (intro conjI allI impI ballI)
    fix q assume "q \<notin> {p}"
    then show "files s' q = files s q" unfolding f' by simp
  next
    fix q assume "q \<notin> {p}"
    then have "q \<noteq> p" by simp
    then show "modes s' q = modes s q" by (rule m')
  next
    fix q assume "q \<in> {p}"
    with st show "settled C s' q" by simp
  next
    fix T
    assume h: "wf_out T \<and> dirs s' \<subseteq> dirs T \<and> dom (files s') \<subseteq> dom (files T) \<and>
               (\<forall>q \<in> {p}. settled C T q)"
    then have "wf_out T" and "dirs s' \<subseteq> dirs T" and "settled C T p" by simp_all
    then show "dump_json codec pf a v p T = Inr T
               \<or> (dump_json codec pf a v p T = Inl (PermissionError, T) \<and> \<not> all_writable pf T)"
      by (rule again)
  qed
  then have "\<exists>W. (\<forall>q. q \<notin> W \<longrightarrow> files s' q = files s q \<and> modes s' q = modes s q) \<and>
          (\<forall>q \<in> W. settled C s' q) \<and>
          (\<forall>T. wf_out T \<and> dirs s' \<subseteq> dirs T \<and> dom (files s') \<subseteq> dom (files T) \<and>
               (\<forall>q \<in> W. settled C T q) \<longrightarrow>
               dump_json codec pf a v p T = Inr T
               \<or> (dump_json codec pf a v p T = Inl (PermissionError, T) \<and> \<not> all_writable pf T))"
    by (rule exI)
  moreover have "dirs s \<subseteq> dirs s'" unfolding d' by simp
  moreover have "dom (files s) \<subseteq> dom (files s')" unfolding f' by auto
  ultimately show "wf_out s' \<and> dirs s \<subseteq> dirs s' \<and> dom (files s) \<subseteq> dom (files s') \<and>
     (\<exists>W. (\<forall>q. q \<notin> W \<longrightarrow> files s' q = files s q \<and> modes s' q = modes s q) \<and>
          (\<forall>q \<in> W. settled C s' q) \<and>
          (\<forall>T. wf_out T \<and> dirs s' \<subseteq> dirs T \<and> dom (files s') \<subseteq> dom (files T) \<and>
               (\<forall>q \<in> W. settled C T q) \<longrightarrow>
               dump_json codec pf a v p T = Inr T
               \<or> (dump_json codec pf a v p T = Inl (PermissionError, T) \<and> \<not> all_writable pf T)))"
    using wf' by (intro conjI)
qed

lemma copy2_Inr:
  "copy2 pf src sp dst s = Inr s' \<Longrightarrow>
   \<exists>bytes m s1. lookup src sp = Some (File bytes m)
     \<and> open_w pf (if dst \<in> dirs s then dst @ [last sp] else dst) s = Inr s1
     \<and> s' = s1\<lparr>files := (files s1)((if dst \<in> dirs s then dst @ [last sp] else dst) \<mapsto> bytes),
              modes := (modes s1)((if dst \<in> dirs s then dst @ [last sp] else dst) := m)\<rparr>"
  unfolding copy2_def Let_def by (auto split: option.splits node.splits sum.splits)

lemma recopy_same:
  "files T q = Some c \<Longrightarrow>
   T\<lparr>files := (files T)(q \<mapsto> []), files := ((files T)(q \<mapsto> []))(q \<mapsto> c),
     modes := (modes T)(q := modes T q)\<rparr> = T"
  by (simp add: map_upd_triv)

lemma replays_copy2:
  assumes val: "\<And>q bytes m. q = dst \<or> q = dst @ [last sp] \<Longrightarrow>
                  lookup src sp = Some (File bytes m) \<Longrightarrow> C q bytes m"
    and fn: "\<And>q c m c' m'. q = dst \<or> q = dst @ [last sp] \<Longrightarrow>
                  C q c m \<Longrightarrow> C q c' m' \<Longrightarrow> c = c' \<and> m = m'"
  shows "replays pf C (copy2 pf src sp dst)"
proof (rule replaysI)
  fix s s'
  assume wf: "wf_out s" and run: "copy2 pf src sp dst s = Inr s'"
  define dest where "dest = (if dst \<in> dirs s then dst @ [last sp] else dst)"
  have dest: "dest = dst \<or> dest = dst @ [last sp]" unfolding dest_def by simp
  from copy2_Inr[OF run] obtain bytes m s1 where
    lk: "lookup src sp = Some (File bytes m)" and op: "open_w pf dest s = Inr s1"
    and s': "s' = s1\<lparr>files := (files s1)(dest \<mapsto> bytes), modes := (modes s1)(dest := m)\<rparr>"
    unfolding dest_def[symmetric] by blast
  from open_w_Inr[OF op] have nd: "dest \<notin> dirs s" and par: "butlast dest \<in> dirs s"
    and d1: "dirs s1 = dirs s" and f1: "files s1 = (files s)(dest \<mapsto> [])"
    by simp_all
  have d': "dirs s' = dirs s" unfolding s' by (simp add: d1)
  have f': "files s' = (files s)(dest \<mapsto> bytes)" unfolding s' by (simp add: f1)
  have m': "modes s' q = modes s q" if "q \<noteq> dest" for q
  proof -
    have "modes s' q = modes s1 q" unfolding s' using that by simp
    also have "\<dots> = modes s q" using op that by (rule open_w_modes_other)
    finally show ?thesis .
  qed
  have mto: "modes s' dest = m" unfolding s' by simp
  have wf': "wf_out s'"
    using wf nd unfolding wf_out_def d' f' by auto
  have st: "settled C s' dest"
    unfolding settled_def f' mto using val[OF dest lk] by simp
  have again: "copy2 pf src sp dst T = Inr T
               \<or> (copy2 pf src sp dst T = Inl (PermissionError, T) \<and> \<not> all_writable pf T)"
    if T: "wf_out T" "dirs s' \<subseteq> dirs T" "settled C T dest" for T
  proof -
    from T(3) obtain c where c: "files T dest = Some c" and cC: "C dest c (modes T dest)"
      unfolding settled_def by (cases "files T dest") simp_all
    from fn[OF dest cC val[OF dest lk]] have "c = bytes" and mT: "modes T dest = m" by simp_all
    with c have fT: "files T dest = Some bytes" by simp
    then have "dest \<in> dom (files T)" by blast
    with T(1) have a: "dest \<notin> dirs T" by (rule wf_out_file_not_dir)
    have b: "butlast dest \<in> dirs T" using par T(2) unfolding d' by blast
    have e: "files T (butlast dest) = None" using T(1) b by (rule wf_out_not_both)
    have destT: "(if dst \<in> dirs T then dst @ [last sp] else dst) = dest"
    proof (cases "dst \<in> dirs s")
      case True
      then have "dst \<in> dirs T" using T(2) unfolding d' by blast
      with True show ?thesis unfolding dest_def by simp
    next
      case False
      then have "dest = dst" unfolding dest_def by simp
      with a show ?thesis by simp
    qed
    have step: "copy2 pf src sp dst T =
        (case open_w pf dest T of
           Inl x \<Rightarrow> Inl x
         | Inr t' \<Rightarrow> Inr (t'\<lparr>files := (files t')(dest \<mapsto> bytes), modes := (modes t')(dest := m)\<rparr>))"
      unfolding copy2_def Let_def destT lk by simp
    note ow = open_w_existing[OF a e b fT, of pf]
    show ?thesis
    proof (cases "may_write pf (modes T dest)")
      case True
      with ow have "open_w pf dest T = Inr (T\<lparr>files := (files T)(dest \<mapsto> [])\<rparr>)" by simp
      then have "copy2 pf src sp dst T =
          Inr (T\<lparr>files := (files T)(dest \<mapsto> []), files := ((files T)(dest \<mapsto> []))(dest \<mapsto> bytes),
                 modes := (modes T)(dest := modes T dest)\<rparr>)"
        unfolding step by (simp add: mT)
      then show ?thesis unfolding recopy_same[OF fT] by simp
    next
      case False
      with ow have "open_w pf dest T = Inl (PermissionError, T)" by simp
      then have "copy2 pf src sp dst T = Inl (PermissionError, T)"
        unfolding step by simp
      with not_all_writable[OF fT False] show ?thesis by simp
    qed
  qed
  have "(\<forall>q. q \<notin> {dest} \<longrightarrow> files s' q = files s q \<and> modes s' q = modes s q) \<and>
          (\<forall>q \<in> {dest}. settled C s' q) \<and>
          (\<forall>T. wf_out T \<and> dirs s' \<subseteq> dirs T \<and> dom (files s') \<subseteq> dom (files T) \<and>
               (\<forall>q \<in> {dest}. settled C T q) \<longrightarrow>
               copy2 pf src sp dst T = Inr T
               \<or> (copy2 pf src sp dst T = Inl (PermissionError, T) \<and> \<not> all_writable pf T))"
  proof (intro conjI allI impI ballI)
    fix q assume "q \<notin> {dest}"
    then show "files s' q = files s q" unfolding f' by simp
  next
    fix q assume "q \<notin> {dest}"
    then have "q \<noteq> dest" by simp
    then show "modes s' q = modes s q" by (rule m')
  next
    fix q assume "q \<in> {dest}"
    with st show "settled C s' q" by simp
  next
    fix T
    assume h: "wf_out T \<and> dirs s' \<subseteq> dirs T \<and> dom (files s') \<subseteq> dom (files T) \<and>
               (\<forall>q \<in> {dest}. settled C T q)"
    then have "wf_out T" and "dirs s' \<subseteq> dirs T" and "settled C T dest" by simp_all
    then show "copy2 pf src sp dst T = Inr T
               \<or> (copy2 pf src sp dst T = Inl (PermissionError, T) \<and> \<not> all_writable pf T)"
      by (rule again)
  qed
  then have "\<exists>W. (\<forall>q. q \<notin> W \<longrightarrow> files s' q = files s q \<and> modes s' q = modes s q) \<and>
          (\<forall>q \<in> W. settled C s' q) \<and>
          (\<forall>T. wf_out T \<and> dirs s' \<subseteq> dirs T \<and> dom (files s') \<subseteq> dom (files T) \<and>
               (\<forall>q \<in> W. settled C T q) \<longrightarrow>
               copy2 pf src sp dst T = Inr T
               \<or> (copy2 pf src sp dst T = Inl (PermissionError, T) \<and> \<not> all_writable pf T))"
    by (rule exI)
  moreover have "dirs s \<subseteq> dirs s'" unfolding d' by simp
  moreover have "dom (files s) \<subseteq> dom (files s')" unfolding f' by auto
  ultimately show "wf_out s' \<and> dirs s \<subseteq> dirs s' \<and> dom (files s) \<subseteq> dom (files s') \<and>
     (\<exists>W. (\<forall>q. q \<notin> W \<longrightarrow> files s' q = files s q \<and> modes s' q = modes s q) \<and>
          (\<forall>q \<in> W. settled C s' q) \<and>
          (\<forall>T. wf_out T \<and> dirs s' \<subseteq> dirs T \<and> dom (files s') \<subseteq> dom (files T) \<and>
               (\<forall>q \<in> W. settled C T q) \<longrightarrow>
               copy2 pf src sp dst T = Inr T
               \<or> (copy2 pf src sp dst T = Inl (PermissionError, T) \<and> \<not> all_writable pf T)))"
    using wf' by (intro conjI)
qed

lemma output_value_content:
  assumes "output_value codec src models images p c m"
    and "output_value codec src models images p c' m'"
  shows "c = c'"
  using assms unfolding output_value_def output_data_dir_def output_images_dir_def
    output_keywords_dir_def output_results_dir_def
  by (elim disjE exE conjE) simp_all

lemma output_value_image:
  assumes "p = output_images_dir @ [img] \<or> p = output_images_dir @ [img, img]"
    and "output_value codec src models images p c m"
    and "output_value codec src models images p c' m'"
  shows "c = c' \<and> m = m'"
  using assms unfolding output_value_def output_data_dir_def output_images_dir_def
    output_keywords_dir_def output_results_dir_def
  by (elim disjE exE conjE) simp_all

lemma replays_process_files_model:
  "replays pf (output_value codec src ms is) (process_files_model codec pf src base_name model)"
proof -
  let ?C = "output_value codec src ms is"
  let ?md = "results_dir @ [model]"
  let ?omd = "output_results_dir @ [model]"
  let ?q = "?omd @ [base_name @ ''.json'']"
  show ?thesis
  proof (cases "get_latest_json src base_name ?md")
    case (Inl e)
    then have "process_files_model codec pf src base_name model = (\<lambda>t. Inl (e, t))"
      by (intro ext) (simp add: process_files_model_def)
    then show ?thesis by (simp add: replays_raise)
  next
    case (Inr found)
    show ?thesis
    proof (cases found)
      case None
      with Inr have "process_files_model codec pf src base_name model = (\<lambda>t. Inr t)"
        by (intro ext) (simp add: process_files_model_def)
      then show ?thesis by (simp add: replays_skip)
    next
      case (Some jf)
      with Inr have gl: "get_latest_json src base_name ?md = Inr (Some jf)" by simp
      show ?thesis
      proof (cases "jf = []")
        case True
        with gl have "process_files_model codec pf src base_name model = (\<lambda>t. Inr t)"
          by (intro ext) (simp add: process_files_model_def)
        then show ?thesis by (simp add: replays_skip)
      next
        case False
        have G: "replays pf ?C (\<lambda>t1. case load_json codec src (?md @ [jf]) of
                            Inl e \<Rightarrow> Inl (e, t1)
                          | Inr model_data \<Rightarrow>
                              (case process_json_content model_data False of
                                 Inl e \<Rightarrow> Inl (e, t1)
                               | Inr processed \<Rightarrow>
                                   dump_json codec pf False (fst processed) ?q t1))"
        proof (rule replays_pure)
          fix model_data
          assume ld: "load_json codec src (?md @ [jf]) = Inr model_data"
          show "replays pf ?C (\<lambda>t1. case process_json_content model_data False of
                                 Inl e \<Rightarrow> Inl (e, t1)
                               | Inr processed \<Rightarrow>
                                   dump_json codec pf False (fst processed) ?q t1)"
          proof (rule replays_pure)
            fix processed
            assume pj: "process_json_content model_data False = Inr processed"
            show "replays pf ?C (dump_json codec pf False (fst processed) ?q)"
            proof (rule replays_dump_json)
              fix rendered m
              assume dm: "dumps codec False (fst processed) = Inr rendered"
              have "\<exists>model' b jf md pr. ?q = output_results_dir @ [model', b @ ''.json'']
                 \<and> get_latest_json src b (results_dir @ [model']) = Inr (Some jf)
                 \<and> load_json codec src (results_dir @ [model', jf]) = Inr md
                 \<and> process_json_content md False = Inr pr
                 \<and> dumps codec False (fst pr) = Inr rendered"
                using gl ld pj dm
                by (intro exI[of _ model] exI[of _ base_name] exI[of _ jf]
                          exI[of _ model_data] exI[of _ processed]) simp
              then show "?C ?q rendered m" unfolding output_value_def by blast
            next
              fix c m c' m'
              assume "?C ?q c m" and "?C ?q c' m'"
              then show "c = c'" by (rule output_value_content)
            qed
          qed
        qed
        have S: "replays pf ?C (\<lambda>t. case makedirs ?omd t of
                          Inl x \<Rightarrow> Inl x
                        | Inr t1 \<Rightarrow>
                           (case load_json codec src (?md @ [jf]) of
                            Inl e \<Rightarrow> Inl (e, t1)
                          | Inr model_data \<Rightarrow>
                              (case process_json_content model_data False of
                                 Inl e \<Rightarrow> Inl (e, t1)
                               | Inr processed \<Rightarrow>
                                   dump_json codec pf False (fst processed) ?q t1)))"
          using replays_makedirs G by (rule replays_seq)
        from gl False have "process_files_model codec pf src base_name model =
           (\<lambda>t. case makedirs ?omd t of
                          Inl x \<Rightarrow> Inl x
                        | Inr t1 \<Rightarrow>
                           (case load_json codec src (?md @ [jf]) of
                            Inl e \<Rightarrow> Inl (e, t1)
                          | Inr model_data \<Rightarrow>
                              (case process_json_content model_data False of
                                 Inl e \<Rightarrow> Inl (e, t1)
                               | Inr processed \<Rightarrow>
                                   dump_json codec pf False (fst processed) ?q t1)))"
          by (intro ext) (simp add: process_files_model_def Let_def)
        with S show ?thesis by simp
      qed
    qed
  qed
qed

lemma replays_process_files_models:
  "replays pf (output_value codec src ms is) (process_files_models codec pf src base_name models)"
proof (induction models)
  case Nil
  have "process_files_models codec pf src base_name [] = (\<lambda>t. Inr t)"
    by (intro ext) simp
  then show ?case by (simp add: replays_skip)
next
  case (Cons model models)
  have "replays pf (output_value codec src ms is)
          (\<lambda>t. case process_files_model codec pf src base_name model t of
                        Inl x \<Rightarrow> Inl x
                      | Inr t' \<Rightarrow> process_files_models codec pf src base_name models t')"
    using replays_process_files_model Cons.IH by (rule replays_seq)
  moreover have "process_files_models codec pf src base_name (model # models) =
      (\<lambda>t. case process_files_model codec pf src base_name model t of
                        Inl x \<Rightarrow> Inl x
                      | Inr t' \<Rightarrow> process_files_models codec pf src base_name models t')"
    by (intro ext) simp
  ultimately show ?case by simp
qed

lemma replays_process_files_keyword:
  "replays pf (output_value codec src ms is) (process_files_keyword codec pf src base_name)"
proof -
  let ?C = "output_value codec src ms is"
  let ?q = "output_keywords_dir @ [base_name @ ''.json'']"
  show ?thesis
  proof (cases "get_latest_json src base_name keywords_dir")
    case (Inl e)
    then have "process_files_keyword codec pf src base_name = (\<lambda>t. Inl (e, t))"
      by (intro ext) (simp add: process_files_keyword_def)
    then show ?thesis by (simp add: replays_raise)
  next
    case (Inr found)
    show ?thesis
    proof (cases found)
      case None
      with Inr have "process_files_keyword codec pf src base_name = (\<lambda>t. Inr t)"
        by (intro ext) (simp add: process_files_keyword_def)
      then show ?thesis by (simp add: replays_skip)
    next
      case (Some kf)
      with Inr have gl: "get_latest_json src base_name keywords_dir = Inr (Some kf)" by simp
      show ?thesis
      proof (cases "kf = []")
        case True
        with gl have "process_files_keyword codec pf src base_name = (\<lambda>t. Inr t)"
          by (intro ext) (simp add: process_files_keyword_def)
        then show ?thesis by (simp add: replays_skip)
      next
        case False
        have G: "replays pf ?C (\<lambda>t. case load_json codec src (keywords_dir @ [kf]) of
                          Inl e \<Rightarrow> Inl (e, t)
                        | Inr keyword_data \<Rightarrow>
                            (case process_json_content keyword_data True of
                               Inl e \<Rightarrow> Inl (e, t)
                             | Inr processed \<Rightarrow>
                                 dump_json codec pf False (fst processed) ?q t))"
        proof (rule replays_pure)
          fix keyword_data
          assume ld: "load_json codec src (keywords_dir @ [kf]) = Inr keyword_data"
          show "replays pf ?C (\<lambda>t. case process_json_content keyword_data True of
                               Inl e \<Rightarrow> Inl (e, t)
                             | Inr processed \<Rightarrow>
                                 dump_json codec pf False (fst processed) ?q t)"
          proof (rule replays_pure)
            fix processed
            assume pj: "process_json_content keyword_data True = Inr processed"
            show "replays pf ?C (dump_json codec pf False (fst processed) ?q)"
            proof (rule replays_dump_json)
              fix rendered m
              assume dm: "dumps codec False (fst processed) = Inr rendered"
              have "\<exists>b kf kd pr. ?q = output_keywords_dir @ [b @ ''.json'']
                 \<and> get_latest_json src b keywords_dir = Inr (Some kf)
                 \<and> load_json codec src (keywords_dir @ [kf]) = Inr kd
                 \<and> process_json_content kd True = Inr pr
                 \<and> dumps codec False (fst pr) = Inr rendered"
                using gl ld pj dm
                by (intro exI[of _ base_name] exI[of _ kf]
                          exI[of _ keyword_data] exI[of _ processed]) simp
              then show "?C ?q rendered m" unfolding output_value_def by blast
            next
              fix c m c' m'
              assume "?C ?q c m" and "?C ?q c' m'"
              then show "c = c'" by (rule output_value_content)
            qed
          qed
        qed
        from gl False have "process_files_keyword codec pf src base_name =
           (\<lambda>t. case load_json codec src (keywords_dir @ [kf]) of
                          Inl e \<Rightarrow> Inl (e, t)
                        | Inr keyword_data \<Rightarrow>
                            (case process_json_content keyword_data True of
                               Inl e \<Rightarrow> Inl (e, t)
                             | Inr processed \<Rightarrow>
                                 dump_json codec pf False (fst processed) ?q t))"
          by (intro ext) (simp add: process_files_keyword_def)
        with G show ?thesis by simp
      qed
    qed
  qed
qed

lemma replays_image_copy:
  "replays pf (output_value codec src ms is)
     (copy2 pf src (image_dir @ [img]) (output_images_dir @ [img]))"
proof (rule replays_copy2)
  fix q bytes m
  assume q: "q = output_images_dir @ [img]
             \<or> q = (output_images_dir @ [img]) @ [last (image_dir @ [img])]"
    and lk: "lookup src (image_dir @ [img]) = Some (File bytes m)"
  from q have "q = output_images_dir @ [img] \<or> q = output_images_dir @ [img, img]" by simp
  with lk have "\<exists>img'. (q = output_images_dir @ [img'] \<or> q = output_images_dir @ [img', img'])
         \<and> lookup src (image_dir @ [img']) = Some (File bytes m)"
    by (intro exI[of _ img]) simp
  then show "output_value codec src ms is q bytes m" unfolding output_value_def by blast
next
  fix q c m c' m'
  assume q: "q = output_images_dir @ [img]
             \<or> q = (output_images_dir @ [img]) @ [last (image_dir @ [img])]"
    and a: "output_value codec src ms is q c m" and b: "output_value codec src ms is q c' m'"
  from q have "q = output_images_dir @ [img] \<or> q = output_images_dir @ [img, img]" by simp
  then show "c = c' \<and> m = m'" using a b by (rule output_value_image)
qed

lemma replays_process_files_image:
  "replays pf (output_value codec src ms is) (process_files_image codec pf src models img)"
proof -
  let ?C = "output_value codec src ms is"
  let ?b = "fst (os_path_splitext pf img)"
  have K: "replays pf ?C (\<lambda>t1. case process_files_keyword codec pf src ?b t1 of
                            Inl x \<Rightarrow> Inl x
                          | Inr t2 \<Rightarrow> process_files_models codec pf src ?b models t2)"
    using replays_process_files_keyword replays_process_files_models by (rule replays_seq)
  have "replays pf ?C
         (\<lambda>t. case copy2 pf src (image_dir @ [img]) (output_images_dir @ [img]) t of
                        Inl x \<Rightarrow> Inl x
                      | Inr t1 \<Rightarrow>
                          (case process_files_keyword codec pf src ?b t1 of
                            Inl x \<Rightarrow> Inl x
                          | Inr t2 \<Rightarrow> process_files_models codec pf src ?b models t2))"
    using replays_image_copy K by (rule replays_seq)
  moreover have "process_files_image codec pf src models img =
       (\<lambda>t. case copy2 pf src (image_dir @ [img]) (output_images_dir @ [img]) t of
                        Inl x \<Rightarrow> Inl x
                      | Inr t1 \<Rightarrow>
                          (case process_files_keyword codec pf src ?b t1 of
                            Inl x \<Rightarrow> Inl x
                          | Inr t2 \<Rightarrow> process_files_models codec pf src ?b models t2))"
    by (rule ext) (unfold process_files_image_def Let_def, rule refl)
  ultimately show ?thesis by simp
qed

lemma replays_process_files_images:
  "replays pf (output_value codec src ms is) (process_files_images codec pf src models images)"
proof (induction images)
  case Nil
  have "process_files_images codec pf src models [] = (\<lambda>t. Inr t)"
    by (intro ext) simp
  then show ?case by (simp add: replays_skip)
next
  case (Cons img images)
  have "replays pf (output_value codec src ms is)
          (\<lambda>t. case process_files_image codec pf src models img t of
                        Inl x \<Rightarrow> Inl x
                      | Inr t' \<Rightarrow> process_files_images codec pf src models images t')"
    using replays_process_files_image Cons.IH by (rule replays_seq)
  moreover have "process_files_images codec pf src models (img # images) =
      (\<lambda>t. case process_files_image codec pf src models img t of
                        Inl x \<Rightarrow> Inl x
                      | Inr t' \<Rightarrow> process_files_images codec pf src models images t')"
    by (intro ext) simp
  ultimately show ?case by simp
qed

lemma replays_index_and_images:
  "replays pf (output_value codec src models images)
     (\<lambda>t. case dump_json codec pf True (JArr (map JStr models))
                       (output_data_dir @ [''models.json'']) t of
                  Inl x \<Rightarrow> Inl x
                | Inr t1 \<Rightarrow>
                    (case dump_json codec pf True (JArr (map JStr images))
                            (output_data_dir @ [''files.json'']) t1 of
                       Inl x \<Rightarrow> Inl x
                     | Inr t2 \<Rightarrow> process_files_images codec pf src models images t2))"
proof -
  let ?C = "output_value codec src models images"
  have M: "replays pf ?C (dump_json codec pf True (JArr (map JStr models))
                            (output_data_dir @ [''models.json'']))"
  proof (rule replays_dump_json)
    fix rendered m
    assume "dumps codec True (JArr (map JStr models)) = Inr rendered"
    then show "?C (output_data_dir @ [''models.json'']) rendered m"
      unfolding output_value_def by simp
  next
    fix c m c' m'
    assume "?C (output_data_dir @ [''models.json'']) c m"
      and "?C (output_data_dir @ [''models.json'']) c' m'"
    then show "c = c'" by (rule output_value_content)
  qed
  have F: "replays pf ?C (dump_json codec pf True (JArr (map JStr images))
                            (output_data_dir @ [''files.json'']))"
  proof (rule replays_dump_json)
    fix rendered m
    assume "dumps codec True (JArr (map JStr images)) = Inr rendered"
    then show "?C (output_data_dir @ [''files.json'']) rendered m"
      unfolding output_value_def by simp
  next
    fix c m c' m'
    assume "?C (output_data_dir @ [''files.json'']) c m"
      and "?C (output_data_dir @ [''files.json'']) c' m'"
    then show "c = c'" by (rule output_value_content)
  qed
  have "replays pf ?C (\<lambda>t1. case dump_json codec pf True (JArr (map JStr images))
                            (output_data_dir @ [''files.json'']) t1 of
                       Inl x \<Rightarrow> Inl x
                     | Inr t2 \<Rightarrow> process_files_images codec pf src models images t2)"
    using F replays_process_files_images by (rule replays_seq)
  with M show ?thesis by (rule replays_seq)
qed

lemma process_files_steps:
  assumes "get_models src = Inr models" and "get_image_files src = Inr images"
  shows "process_files codec pf src t =
     (case (case dump_json codec pf True (JArr (map JStr models))
                       (output_data_dir @ [''models.json'']) t of
                  Inl x \<Rightarrow> Inl x
                | Inr t1 \<Rightarrow>
                    (case dump_json codec pf True (JArr (map JStr images))
                            (output_data_dir @ [''files.json'']) t1 of
                       Inl x \<Rightarrow> Inl x
                     | Inr t2 \<Rightarrow> process_files_images codec pf src models images t2)) of
        Inl x \<Rightarrow> Inl x
      | Inr t3 \<Rightarrow> Inr (PyNone, t3))"
  using assms unfolding process_files_def by (simp split: sum.splits)

lemma process_files_lists:
  assumes "process_files codec pf src t = Inr (r, t')"
  shows "\<exists>models images. get_models src = Inr models \<and> get_image_files src = Inr images"
  using assms unfolding process_files_def by (auto split: sum.splits)

lemma makedirs_files: "makedirs q s = Inr s' \<Longrightarrow> files s' = files s"
  unfolding makedirs_def by (auto split: if_splits)

lemma makedirs_modes: "makedirs q s = Inr s' \<Longrightarrow> modes s' = modes s"
  unfolding makedirs_def by (auto split: if_splits)

lemma makedirs_all_writable:
  "makedirs q s = Inr s' \<Longrightarrow> all_writable pf s \<Longrightarrow> all_writable pf s'"
  using makedirs_files[of q s s'] makedirs_modes[of q s s'] unfolding all_writable_def by simp

lemma dump_json_all_writable:
  assumes run: "dump_json codec pf a v q s = Inr s'" and aw: "all_writable pf s"
    and cm: "may_write pf (create_mode pf)"
  shows "all_writable pf s'"
proof -
  from dump_json_Inr[OF run] obtain s1 rendered where
    op: "open_w pf q s = Inr s1" and s': "s' = s1\<lparr>files := (files s1)(q \<mapsto> rendered)\<rparr>"
    by blast
  from open_w_Inr[OF op] have f1: "files s1 = (files s)(q \<mapsto> [])"
    and old: "files s q \<noteq> None \<longrightarrow> may_write pf (modes s q) \<and> modes s1 = modes s"
    and new: "files s q = None \<longrightarrow> modes s1 = (modes s)(q := create_mode pf)"
    by simp_all
  have m': "modes s' = modes s1" and f': "files s' = (files s)(q \<mapsto> rendered)"
    unfolding s' f1 by simp_all
  show ?thesis
    unfolding all_writable_def
  proof (intro allI impI)
    fix p
    assume ex: "files s' p \<noteq> None"
    show "may_write pf (modes s' p)"
    proof (cases "p = q")
      case True
      show ?thesis
      proof (cases "files s q")
        case None
        with new have "modes s1 q = create_mode pf" by simp
        with cm True m' show ?thesis by simp
      next
        case (Some c)
        with old have "may_write pf (modes s q)" and "modes s1 = modes s" by simp_all
        with True m' show ?thesis by simp
      qed
    next
      case False
      with ex f' have e: "files s p \<noteq> None" by simp
      with aw have w: "may_write pf (modes s p)" unfolding all_writable_def by blast
      from open_w_modes_other[OF op False] have "modes s1 p = modes s p" .
      with w m' show ?thesis by simp
    qed
  qed
qed

lemma copy2_all_writable:
  assumes run: "copy2 pf src sp dst s = Inr s'" and aw: "all_writable pf s"
    and sw: "\<And>bytes m. lookup src sp = Some (File bytes m) \<Longrightarrow> may_write pf m"
  shows "all_writable pf s'"
proof -
  define dest where "dest = (if dst \<in> dirs s then dst @ [last sp] else dst)"
  from copy2_Inr[OF run] obtain bytes m s1 where lk: "lookup src sp = Some (File bytes m)"
    and op: "open_w pf dest s = Inr s1"
    and s': "s' = s1\<lparr>files := (files s1)(dest \<mapsto> bytes), modes := (modes s1)(dest := m)\<rparr>"
    unfolding dest_def by blast
  from open_w_Inr[OF op] have f1: "files s1 = (files s)(dest \<mapsto> [])" by simp
  have m': "modes s' = (modes s1)(dest := m)" and f': "files s' = (files s)(dest \<mapsto> bytes)"
    unfolding s' f1 by simp_all
  from sw[OF lk] have wm: "may_write pf m" .
  show ?thesis
    unfolding all_writable_def
  proof (intro allI impI)
    fix p
    assume ex: "files s' p \<noteq> None"
    show "may_write pf (modes s' p)"
    proof (cases "p = dest")
      case True
      with wm m' show ?thesis by simp
    next
      case False
      with ex f' have e: "files s p \<noteq> None" by simp
      with aw have w: "may_write pf (modes s p)" unfolding all_writable_def by blast
      from open_w_modes_other[OF op False] have "modes s1 p = modes s p" .
      with w m' False show ?thesis by simp
    qed
  qed
qed

lemma process_files_model_all_writable:
  assumes run: "process_files_model codec pf src base_name model s = Inr s'"
    and aw: "all_writable pf s" and cm: "may_write pf (create_mode pf)"
  shows "all_writable pf s'"
proof (cases "get_latest_json src base_name (results_dir @ [model])")
  case (Inl e)
  with run show ?thesis by (simp add: process_files_model_def)
next
  case (Inr found)
  show ?thesis
  proof (cases found)
    case None
    with Inr run aw show ?thesis by (simp add: process_files_model_def)
  next
    case (Some jf)
    show ?thesis
    proof (cases "jf = []")
      case True
      with Inr Some run aw show ?thesis by (simp add: process_files_model_def)
    next
      case False
      let ?q = "(output_results_dir @ [model]) @ [base_name @ ''.json'']"
      from Inr Some False run obtain s1 v where
        mk: "makedirs (output_results_dir @ [model]) s = Inr s1"
        and dj: "dump_json codec pf False v ?q s1 = Inr s'"
        by (auto simp: process_files_model_def Let_def split: sum.splits)
      from mk aw have "all_writable pf s1" by (rule makedirs_all_writable)
      with dj show ?thesis using cm by (rule dump_json_all_writable)
    qed
  qed
qed

lemma process_files_models_all_writable:
  "process_files_models codec pf src base_name models s = Inr s' \<Longrightarrow> all_writable pf s \<Longrightarrow>
   may_write pf (create_mode pf) \<Longrightarrow> all_writable pf s'"
proof (induction models arbitrary: s)
  case Nil
  then show ?case by simp
next
  case (Cons model models)
  from Cons.prems(1) obtain s1 where
    a: "process_files_model codec pf src base_name model s = Inr s1"
    and b: "process_files_models codec pf src base_name models s1 = Inr s'"
    by (auto split: sum.splits)
  from a Cons.prems(2,3) have "all_writable pf s1" by (rule process_files_model_all_writable)
  with b show ?case using Cons.prems(3) by (rule Cons.IH)
qed

lemma process_files_keyword_all_writable:
  assumes run: "process_files_keyword codec pf src base_name s = Inr s'"
    and aw: "all_writable pf s" and cm: "may_write pf (create_mode pf)"
  shows "all_writable pf s'"
proof (cases "get_latest_json src base_name keywords_dir")
  case (Inl e)
  with run show ?thesis by (simp add: process_files_keyword_def)
next
  case (Inr found)
  show ?thesis
  proof (cases found)
    case None
    with Inr run aw show ?thesis by (simp add: process_files_keyword_def)
  next
    case (Some kf)
    show ?thesis
    proof (cases "kf = []")
      case True
      with Inr Some run aw show ?thesis by (simp add: process_files_keyword_def)
    next
      case False
      let ?q = "output_keywords_dir @ [base_name @ ''.json'']"
      from Inr Some False run obtain v where
        dj: "dump_json codec pf False v ?q s = Inr s'"
        by (auto simp: process_files_keyword_def split: sum.splits)
      from dj aw cm show ?thesis by (rule dump_json_all_writable)
    qed
  qed
qed

lemma process_files_image_all_writable:
  assumes run: "process_files_image codec pf src models img s = Inr s'"
    and aw: "all_writable pf s" and cm: "may_write pf (create_mode pf)"
    and sw: "\<And>bytes m. lookup src (image_dir @ [img]) = Some (File bytes m) \<Longrightarrow> may_write pf m"
  shows "all_writable pf s'"
proof -
  from run obtain s1 s2 where
    a: "copy2 pf src (image_dir @ [img]) (output_images_dir @ [img]) s = Inr s1"
    and b: "process_files_keyword codec pf src (fst (os_path_splitext pf img)) s1 = Inr s2"
    and c: "process_files_models codec pf src (fst (os_path_splitext pf img)) models s2 = Inr s'"
    unfolding process_files_image_def Let_def by (auto split: sum.splits)
  from a aw sw have "all_writable pf s1" by (rule copy2_all_writable)
  with b have "all_writable pf s2" using cm by (rule process_files_keyword_all_writable)
  with c show ?thesis using cm by (rule process_files_models_all_writable)
qed

lemma process_files_images_all_writable:
  "process_files_images codec pf src models images s = Inr s' \<Longrightarrow> all_writable pf s \<Longrightarrow>
   may_write pf (create_mode pf) \<Longrightarrow>
   list_all (\<lambda>img. case lookup src (image_dir @ [img]) of
                      Some (File bytes m) \<Rightarrow> may_write pf m
                    | _ \<Rightarrow> True) images \<Longrightarrow>
   all_writable pf s'"
proof (induction images arbitrary: s)
  case Nil
  then show ?case by simp
next
  case (Cons img images)
  from Cons.prems(1) obtain s1 where
    a: "process_files_image codec pf src models img s = Inr s1"
    and b: "process_files_images codec pf src models images s1 = Inr s'"
    by (auto split: sum.splits)
  from Cons.prems(4) have
    hd: "(case lookup src (image_dir @ [img]) of
            Some (File bytes m) \<Rightarrow> may_write pf m | _ \<Rightarrow> True)"
    and tl: "list_all (\<lambda>img. case lookup src (image_dir @ [img]) of
                      Some (File bytes m) \<Rightarrow> may_write pf m
                    | _ \<Rightarrow> True) images"
    by simp_all
  have sw: "may_write pf m" if "lookup src (image_dir @ [img]) = Some (File bytes m)"
    for bytes m
    using hd that by simp
  from a Cons.prems(2,3) sw have "all_writable pf s1"
    by (rule process_files_image_all_writable)
  with b show ?case using Cons.prems(3) tl by (rule Cons.IH)
qed

text \<open>
  A completed run from a tree whose files may all be written leaves such a tree, when a
  new file is created with an owner-write bit and no selected image is read-only.
\<close>

lemma process_files_all_writable:
  assumes run: "process_files codec pf src t = Inr (r, t')"
    and aw: "all_writable pf t" and cm: "may_write pf (create_mode pf)"
    and iw: "images_writable pf src"
  shows "all_writable pf t'"
proof -
  from run obtain models images t1 t2 where
    im: "get_image_files src = Inr images"
    and d1: "dump_json codec pf True (JArr (map JStr models))
               (output_data_dir @ [''models.json'']) t = Inr t1"
    and d2: "dump_json codec pf True (JArr (map JStr images))
               (output_data_dir @ [''files.json'']) t1 = Inr t2"
    and lp: "process_files_images codec pf src models images t2 = Inr t'"
    unfolding process_files_def by (auto split: sum.splits)
  from iw im have l: "list_all (\<lambda>img. case lookup src (image_dir @ [img]) of
                      Some (File bytes m) \<Rightarrow> may_write pf m
                    | _ \<Rightarrow> True) images"
    unfolding images_writable_def by simp
  from d1 aw cm have "all_writable pf t1" by (rule dump_json_all_writable)
  with d2 have "all_writable pf t2" using cm by (rule dump_json_all_writable)
  with lp show ?thesis using cm l by (rule process_files_images_all_writable)
qed

text \<open>
  Claim C2. Running \<^verbatim>\<open>process_files\<close> twice in a row on an unchanged source tree gives
  the same output tree. When the first run completes, from an output tree in which no
  path is both a directory and a file, the second run leaves exactly the tree the first
  run left: the same directories and the same files, with the same bytes and the same
  permission bits. The second run either completes, or it stops with
  \<^verbatim>\<open>PermissionError\<close> at a file it may not open for writing (the copy of a read-only
  image has the bits of the image) before it has changed anything; it completes when
  every file of the tree may be written.
\<close>

theorem publish_idempotent:
  assumes "wf_out t" and "process_files codec pf src t = Inr (r, t')"
  shows "(process_files codec pf src t' = Inr (r, t')
          \<or> process_files codec pf src t' = Inl (PermissionError, t'))
       \<and> (all_writable pf t' \<longrightarrow> process_files codec pf src t' = Inr (r, t'))"
proof -
  from process_files_lists[OF assms(2)] obtain models images where
    ms: "get_models src = Inr models" and im: "get_image_files src = Inr images"
    by blast
  define steps where "steps =
     (\<lambda>t. case dump_json codec pf True (JArr (map JStr models))
                       (output_data_dir @ [''models.json'']) t of
                  Inl x \<Rightarrow> Inl x
                | Inr t1 \<Rightarrow>
                    (case dump_json codec pf True (JArr (map JStr images))
                            (output_data_dir @ [''files.json'']) t1 of
                       Inl x \<Rightarrow> Inl x
                     | Inr t2 \<Rightarrow> process_files_images codec pf src models images t2))"
  have pf_steps: "process_files codec pf src u =
      (case steps u of Inl x \<Rightarrow> Inl x | Inr t3 \<Rightarrow> Inr (PyNone, t3))" for u
    unfolding steps_def using ms im by (rule process_files_steps)
  have rp: "replays pf (output_value codec src models images) steps"
    unfolding steps_def by (rule replays_index_and_images)
  from assms(2) have first: "steps t = Inr t'" and r: "r = PyNone"
    unfolding pf_steps[of t] by (auto split: sum.splits)
  from rp assms(1) first
  have again: "steps t' = Inr t' \<or> (steps t' = Inl (PermissionError, t') \<and> \<not> all_writable pf t')"
    by (rule replays_again)
  then show ?thesis
  proof
    assume "steps t' = Inr t'"
    then have "process_files codec pf src t' = Inr (r, t')"
      unfolding pf_steps[of t'] r by simp
    then show ?thesis by simp
  next
    assume f: "steps t' = Inl (PermissionError, t') \<and> \<not> all_writable pf t'"
    then have "process_files codec pf src t' = Inl (PermissionError, t')"
      unfolding pf_steps[of t'] by simp
    with f show ?thesis by simp
  qed
qed

text \<open>
  On the source tree of the scenario the second run completes. With the first image
  read-only the first run completes and the second stops with \<^verbatim>\<open>PermissionError\<close>,
  leaving the tree as the first run left it.
\<close>

theorem publish_idempotent_witness:
  "wf_out demo_out_dirs
   \<and> \<not> isl (process_files demo_codec posix demo_src demo_out_dirs)
   \<and> all_writable posix (snd (projr (process_files demo_codec posix demo_src demo_out_dirs)))
   \<and> process_files demo_codec posix demo_src
        (snd (projr (process_files demo_codec posix demo_src demo_out_dirs)))
      = process_files demo_codec posix demo_src demo_out_dirs
   \<and> \<not> isl (process_files demo_codec posix demo_src_readonly demo_out_dirs)
   \<and> process_files demo_codec posix demo_src_readonly
        (snd (projr (process_files demo_codec posix demo_src_readonly demo_out_dirs)))
      = Inl (PermissionError,
             snd (projr (process_files demo_codec posix demo_src_readonly demo_out_dirs)))"
proof -
  have h1: "wf_out demo_out_dirs"
    by (simp add: wf_out_def demo_out_dirs_def)
  have h2: "\<not> isl (process_files demo_codec posix demo_src demo_out_dirs)"
    by code_simp
  then obtain r t' where run: "process_files demo_codec posix demo_src demo_out_dirs = Inr (r, t')"
    by (cases "process_files demo_codec posix demo_src demo_out_dirs") auto
  have a0: "all_writable posix demo_out_dirs"
    by (simp add: all_writable_def demo_out_dirs_def)
  have cm: "may_write posix (create_mode posix)" by code_simp
  have iw: "images_writable posix demo_src" by code_simp
  from run a0 cm iw have aw: "all_writable posix t'" by (rule process_files_all_writable)
  from publish_idempotent[OF h1 run] aw
  have same: "process_files demo_codec posix demo_src t' = Inr (r, t')" by simp
  have h3: "\<not> isl (process_files demo_codec posix demo_src_readonly demo_out_dirs)"
    by code_simp
  then obtain r2 t2 where
    run2: "process_files demo_codec posix demo_src_readonly demo_out_dirs = Inr (r2, t2)"
    by (cases "process_files demo_codec posix demo_src_readonly demo_out_dirs") auto
  have h4: "isl (process_files demo_codec posix demo_src_readonly
        (snd (projr (process_files demo_codec posix demo_src_readonly demo_out_dirs))))"
    by code_simp
  with run2 have h4': "isl (process_files demo_codec posix demo_src_readonly t2)" by simp
  from publish_idempotent[OF h1 run2] h4'
  have fail: "process_files demo_codec posix demo_src_readonly t2 = Inl (PermissionError, t2)"
    by auto
  from h1 h2 run aw same h3 run2 fail show ?thesis by simp
qed

section \<open>What a run returns\<close>

lemma dump_json_other:
  assumes "dump_json codec pf a v q s = Inr s'" and "q \<noteq> p"
  shows "files s' p = files s p"
proof -
  from dump_json_Inr[OF assms(1)] obtain s1 rendered where
    a: "open_w pf q s = Inr s1" and b: "s' = s1\<lparr>files := (files s1)(q \<mapsto> rendered)\<rparr>"
    by blast
  from open_w_Inr[OF a] have "files s1 = (files s)(q \<mapsto> [])" by simp
  with b assms(2) show ?thesis by simp
qed

lemma dump_json_written:
  assumes "dump_json codec pf a v q s = Inr s'"
  shows "\<exists>rendered. dumps codec a v = Inr rendered \<and> files s' q = Some rendered"
proof -
  from dump_json_Inr[OF assms] obtain s1 rendered where
    d: "dumps codec a v = Inr rendered" and b: "s' = s1\<lparr>files := (files s1)(q \<mapsto> rendered)\<rparr>"
    by blast
  from b have "files s' q = Some rendered" by simp
  with d show ?thesis by blast
qed

lemma copy2_other:
  assumes "copy2 pf src sp dst s = Inr s'" and "dst \<noteq> p" and "dst @ [last sp] \<noteq> p"
  shows "files s' p = files s p"
proof -
  let ?to = "if dst \<in> dirs s then dst @ [last sp] else dst"
  from assms(1) obtain s1 bytes where op: "open_w pf ?to s = Inr s1"
    and s': "files s' = (files s1)(?to \<mapsto> bytes)"
    unfolding copy2_def Let_def by (auto split: option.splits node.splits sum.splits)
  have ne: "?to \<noteq> p" using assms(2,3) by simp
  from open_w_Inr[OF op] have "files s1 = (files s)(?to \<mapsto> [])" by simp
  with s' ne show ?thesis by simp
qed

lemma process_files_model_other:
  assumes "process_files_model codec pf src base_name model s = Inr s'" and "length p = 2"
  shows "files s' p = files s p"
proof (cases "get_latest_json src base_name (results_dir @ [model])")
  case (Inl e)
  with assms(1) show ?thesis by (simp add: process_files_model_def)
next
  case (Inr found)
  show ?thesis
  proof (cases found)
    case None
    with Inr assms(1) show ?thesis by (simp add: process_files_model_def)
  next
    case (Some jf)
    show ?thesis
    proof (cases "jf = []")
      case True
      with Inr Some assms(1) show ?thesis by (simp add: process_files_model_def)
    next
      case False
      let ?q = "(output_results_dir @ [model]) @ [base_name @ ''.json'']"
      from Inr Some False assms(1) obtain s1 v where
        mk: "makedirs (output_results_dir @ [model]) s = Inr s1"
        and dj: "dump_json codec pf False v ?q s1 = Inr s'"
        by (auto simp: process_files_model_def Let_def split: sum.splits)
      have "?q \<noteq> p" using assms(2) by (auto simp: output_results_dir_def output_data_dir_def)
      with dj have "files s' p = files s1 p" by (rule dump_json_other)
      with makedirs_files[OF mk] show ?thesis by simp
    qed
  qed
qed

lemma process_files_models_other:
  "process_files_models codec pf src base_name models s = Inr s' \<Longrightarrow> length p = 2 \<Longrightarrow>
   files s' p = files s p"
proof (induction models arbitrary: s)
  case Nil
  then show ?case by simp
next
  case (Cons model models)
  from Cons.prems(1) obtain s1 where
    a: "process_files_model codec pf src base_name model s = Inr s1"
    and b: "process_files_models codec pf src base_name models s1 = Inr s'"
    by (auto split: sum.splits)
  from Cons.IH[OF b Cons.prems(2)] process_files_model_other[OF a Cons.prems(2)]
  show ?case by simp
qed

lemma process_files_keyword_other:
  assumes "process_files_keyword codec pf src base_name s = Inr s'" and "length p = 2"
  shows "files s' p = files s p"
proof (cases "get_latest_json src base_name keywords_dir")
  case (Inl e)
  with assms(1) show ?thesis by (simp add: process_files_keyword_def)
next
  case (Inr found)
  show ?thesis
  proof (cases found)
    case None
    with Inr assms(1) show ?thesis by (simp add: process_files_keyword_def)
  next
    case (Some kf)
    show ?thesis
    proof (cases "kf = []")
      case True
      with Inr Some assms(1) show ?thesis by (simp add: process_files_keyword_def)
    next
      case False
      let ?q = "output_keywords_dir @ [base_name @ ''.json'']"
      from Inr Some False assms(1) obtain v where
        dj: "dump_json codec pf False v ?q s = Inr s'"
        by (auto simp: process_files_keyword_def split: sum.splits)
      have "?q \<noteq> p" using assms(2) by (auto simp: output_keywords_dir_def output_data_dir_def)
      with dj show ?thesis by (rule dump_json_other)
    qed
  qed
qed

lemma process_files_image_other:
  assumes "process_files_image codec pf src models img s = Inr s'" and "length p = 2"
  shows "files s' p = files s p"
proof -
  from assms(1) obtain s1 s2 where
    a: "copy2 pf src (image_dir @ [img]) (output_images_dir @ [img]) s = Inr s1"
    and b: "process_files_keyword codec pf src (fst (os_path_splitext pf img)) s1 = Inr s2"
    and c: "process_files_models codec pf src (fst (os_path_splitext pf img)) models s2 = Inr s'"
    unfolding process_files_image_def Let_def by (auto split: sum.splits)
  have "output_images_dir @ [img] \<noteq> p"
    and "(output_images_dir @ [img]) @ [last (image_dir @ [img])] \<noteq> p"
    using assms(2) by (auto simp: output_images_dir_def output_data_dir_def)
  with a have "files s1 p = files s p" by (rule copy2_other)
  with process_files_keyword_other[OF b assms(2)] process_files_models_other[OF c assms(2)]
  show ?thesis by simp
qed

lemma process_files_images_other:
  "process_files_images codec pf src models images s = Inr s' \<Longrightarrow> length p = 2 \<Longrightarrow>
   files s' p = files s p"
proof (induction images arbitrary: s)
  case Nil
  then show ?case by simp
next
  case (Cons img images)
  from Cons.prems(1) obtain s1 where
    a: "process_files_image codec pf src models img s = Inr s1"
    and b: "process_files_images codec pf src models images s1 = Inr s'"
    by (auto split: sum.splits)
  from Cons.IH[OF b Cons.prems(2)] process_files_image_other[OF a Cons.prems(2)]
  show ?case by simp
qed

lemma process_files_index:
  assumes "process_files codec pf src t = Inr (r, t')"
  shows "r = PyNone \<and>
     (\<exists>models images. get_models src = Inr models \<and> get_image_files src = Inr images \<and>
        (\<exists>text. dumps codec True (JArr (map JStr models)) = Inr text \<and>
                files t' (output_data_dir @ [''models.json'']) = Some text) \<and>
        (\<exists>text. dumps codec True (JArr (map JStr images)) = Inr text \<and>
                files t' (output_data_dir @ [''files.json'']) = Some text))"
proof -
  let ?pm = "output_data_dir @ [''models.json'']"
  let ?pf = "output_data_dir @ [''files.json'']"
  from assms obtain models images t1 t2 where r: "r = PyNone"
    and ms: "get_models src = Inr models" and im: "get_image_files src = Inr images"
    and d1: "dump_json codec pf True (JArr (map JStr models)) ?pm t = Inr t1"
    and d2: "dump_json codec pf True (JArr (map JStr images)) ?pf t1 = Inr t2"
    and lp: "process_files_images codec pf src models images t2 = Inr t'"
    unfolding process_files_def by (auto split: sum.splits)
  have lm: "length ?pm = 2" and lf: "length ?pf = 2"
    by (simp_all add: output_data_dir_def)
  from dump_json_written[OF d1] obtain tm where
    tm: "dumps codec True (JArr (map JStr models)) = Inr tm" and fm: "files t1 ?pm = Some tm"
    by blast
  from dump_json_written[OF d2] obtain tf where
    tf: "dumps codec True (JArr (map JStr images)) = Inr tf" and ff: "files t2 ?pf = Some tf"
    by blast
  have "?pf \<noteq> ?pm" by simp
  with d2 have "files t2 ?pm = files t1 ?pm" by (rule dump_json_other)
  with process_files_images_other[OF lp lm] fm have m': "files t' ?pm = Some tm" by simp
  from process_files_images_other[OF lp lf] ff have f': "files t' ?pf = Some tf" by simp
  from r ms im tm m' tf f' show ?thesis by blast
qed

text \<open>
  On the source tree with the two images \<^verbatim>\<open>a.jpg\<close> and \<^verbatim>\<open>b.png\<close> and the two models
  \<^verbatim>\<open>m1\<close> and \<^verbatim>\<open>m2\<close>, a completed run of \<^verbatim>\<open>process\<close>, and of \<^verbatim>\<open>process_files\<close>, does not
  return the pair \<^verbatim>\<open>(2, 2)\<close>.
\<close>

theorem publish_returns_counts_counterexample:
  "get_image_files demo_src = Inr [''a.jpg'', ''b.png'']
   \<and> get_models demo_src = Inr [''m1'', ''m2'']
   \<and> \<not> isl (process demo_codec posix demo_src demo_out)
   \<and> fst (projr (process demo_codec posix demo_src demo_out)) \<noteq> PyTuple [PyInt 2, PyInt 2]
   \<and> \<not> isl (process_files demo_codec posix demo_src demo_out_dirs)
   \<and> fst (projr (process_files demo_codec posix demo_src demo_out_dirs))
       \<noteq> PyTuple [PyInt 2, PyInt 2]"
  by code_simp

text \<open>
  Claim C9, amended. A completed run of \<^verbatim>\<open>process_files\<close>, and of \<^verbatim>\<open>process\<close>, returns
  \<^verbatim>\<open>None\<close>, not a pair of counts. The model directories and the image files it
  discovered, whose numbers the counts would be, are what it has written, as JSON
  arrays, to \<^verbatim>\<open>models.json\<close> and \<^verbatim>\<open>files.json\<close> in the output data directory.
\<close>

theorem publish_returns_none:
  "(process_files codec pf src t = Inr (r, t') \<longrightarrow>
      r = PyNone \<and>
     (\<exists>models images. get_models src = Inr models \<and> get_image_files src = Inr images \<and>
        (\<exists>text. dumps codec True (JArr (map JStr models)) = Inr text \<and>
                files t' (output_data_dir @ [''models.json'']) = Some text) \<and>
        (\<exists>text. dumps codec True (JArr (map JStr images)) = Inr text \<and>
                files t' (output_data_dir @ [''files.json'']) = Some text)))
   \<and> (process codec pf src t = Inr (r, t') \<longrightarrow>
      r = PyNone \<and>
     (\<exists>models images. get_models src = Inr models \<and> get_image_files src = Inr images \<and>
        (\<exists>text. dumps codec True (JArr (map JStr models)) = Inr text \<and>
                files t' (output_data_dir @ [''models.json'']) = Some text) \<and>
        (\<exists>text. dumps codec True (JArr (map JStr images)) = Inr text \<and>
                files t' (output_data_dir @ [''files.json'']) = Some text)))"
proof (rule conjI; rule impI)
  assume "process_files codec pf src t = Inr (r, t')"
  then show "r = PyNone \<and>
     (\<exists>models images. get_models src = Inr models \<and> get_image_files src = Inr images \<and>
        (\<exists>text. dumps codec True (JArr (map JStr models)) = Inr text \<and>
                files t' (output_data_dir @ [''models.json'']) = Some text) \<and>
        (\<exists>text. dumps codec True (JArr (map JStr images)) = Inr text \<and>
                files t' (output_data_dir @ [''files.json'']) = Some text))"
    by (rule process_files_index)
next
  assume "process codec pf src t = Inr (r, t')"
  then obtain t1 r1 where r: "r = PyNone"
    and run: "process_files codec pf src t1 = Inr (r1, t')"
    unfolding process_def by (auto split: sum.splits)
  from process_files_index[OF run] r
  show "r = PyNone \<and>
     (\<exists>models images. get_models src = Inr models \<and> get_image_files src = Inr images \<and>
        (\<exists>text. dumps codec True (JArr (map JStr models)) = Inr text \<and>
                files t' (output_data_dir @ [''models.json'']) = Some text) \<and>
        (\<exists>text. dumps codec True (JArr (map JStr images)) = Inr text \<and>
                files t' (output_data_dir @ [''files.json'']) = Some text))"
    by simp
qed

theorem publish_returns_none_witness:
  "\<not> isl (process_files demo_codec posix demo_src demo_out_dirs)
   \<and> fst (projr (process_files demo_codec posix demo_src demo_out_dirs)) = PyNone
   \<and> \<not> isl (process demo_codec posix demo_src demo_out)
   \<and> fst (projr (process demo_codec posix demo_src demo_out)) = PyNone"
proof -
  have h1: "\<not> isl (process_files demo_codec posix demo_src demo_out_dirs)" by code_simp
  have h2: "\<not> isl (process demo_codec posix demo_src demo_out)" by code_simp
  from h1 obtain r1 t1 where
    run1: "process_files demo_codec posix demo_src demo_out_dirs = Inr (r1, t1)"
    by (cases "process_files demo_codec posix demo_src demo_out_dirs") auto
  from h2 obtain r2 t2 where
    run2: "process demo_codec posix demo_src demo_out = Inr (r2, t2)"
    by (cases "process demo_codec posix demo_src demo_out") auto
  from publish_returns_none[of demo_codec posix demo_src demo_out_dirs r1 t1] run1
  have "r1 = PyNone" by simp
  moreover from publish_returns_none[of demo_codec posix demo_src demo_out r2 t2] run2
  have "r2 = PyNone" by simp
  ultimately show ?thesis using h1 h2 run1 run2 by simp
qed

text \<open>
  The scenario of the specification: the two index files, the copied images, the
  keyword file of the first image only, and the result of the model that has one.
\<close>

lemma publish_scenario:
  "map (files (snd (projr (process demo_codec posix demo_src demo_out))))
     [[''data'', ''models.json''], [''data'', ''files.json''],
      [''data'', ''images'', ''a.jpg''], [''data'', ''images'', ''b.png''],
      [''data'', ''keywords'', ''a.json''], [''data'', ''keywords'', ''b.json''],
      [''data'', ''results'', ''m1'', ''a.json''], [''data'', ''results'', ''m2'', ''a.json'']]
   = [Some ''m1,m2,'', Some ''a.jpg,b.png,'', Some ''JPG'', Some ''PNG'',
      Some ''ocr_results;identified_keywords;statistics;'', None, Some ''score;'', None]"
  by code_simp

end
